theory Spec2Isabelle
  imports Complex_Main "HOL-Library.AList"
begin

section \<open>Timer configuration (config/timers.js)\<close>

text \<open>
  A level range of \<^verbatim>\<open>TIMER_CONFIG.levelRanges\<close>: the fields \<^verbatim>\<open>start\<close>, \<^verbatim>\<open>end\<close>,
  \<^verbatim>\<open>startSec\<close> and \<^verbatim>\<open>endSec\<close>. Levels are the integers the turn engine counts;
  durations are JavaScript numbers, read here as exact rationals.
\<close>

record levelRange =
  lr_start :: int
  lr_end :: int
  startSec :: rat
  endSec :: rat

definition levelRanges :: "levelRange list" where
  "levelRanges =
    [ \<lparr>lr_start = 1, lr_end = 10, startSec = 10, endSec = 8\<rparr>,
      \<lparr>lr_start = 10, lr_end = 15, startSec = 8, endSec = 6\<rparr>,
      \<lparr>lr_start = 15, lr_end = 20, startSec = 6, endSec = 4\<rparr> ]"

definition voteDurationMs :: int where
  "voteDurationMs = 2000"

text \<open>The object \<^verbatim>\<open>TIMER_CONFIG\<close> that the module exports.\<close>

record timerConfig =
  levelRangesOf :: "levelRange list"
  voteDurationMsOf :: int

definition TIMER_CONFIG :: timerConfig where
  "TIMER_CONFIG = \<lparr>levelRangesOf = levelRanges, voteDurationMsOf = voteDurationMs\<rparr>"

text \<open>
  The \<^verbatim>\<open>for\<close> loop of \<^verbatim>\<open>getTurnDuration\<close>: the first range that either starts above
  the level or contains it decides; \<open>None\<close> when the loop falls through.
\<close>

fun rangeLoop :: "levelRange list \<Rightarrow> int \<Rightarrow> rat option" where
  "rangeLoop [] level = None"
| "rangeLoop (r # rs) level =
    (if level < lr_start r then Some (startSec r)
     else if level \<ge> lr_start r \<and> level \<le> lr_end r then
       (let steps = lr_end r - lr_start r in
        if steps = 0 then Some (endSec r)
        else
          (let stepSize = (startSec r - endSec r) / of_int steps
           in Some (startSec r - of_int (level - lr_start r) * stepSize)))
     else rangeLoop rs level)"

definition getTurnDurationOf :: "levelRange list \<Rightarrow> int \<Rightarrow> rat" where
  "getTurnDurationOf ranges level =
    (if ranges = [] then 4
     else (case rangeLoop ranges level of
             Some sec \<Rightarrow> sec
           | None \<Rightarrow> endSec (last ranges)))"

definition getTurnDuration :: "int \<Rightarrow> rat" where
  "getTurnDuration level = getTurnDurationOf levelRanges level"

text \<open>\<^verbatim>\<open>Math.round(x)\<close>: the nearest integer, halves upwards.\<close>

definition mathRound :: "rat \<Rightarrow> int" where
  "mathRound x = \<lfloor>x + 1 / 2\<rfloor>"

text \<open>
  Ranges as the configuration comment describes them: every range runs forward and the
  next one starts no earlier than the previous one ends.
\<close>

fun orderedRanges :: "levelRange list \<Rightarrow> bool" where
  "orderedRanges [] = True"
| "orderedRanges [r] = (lr_start r \<le> lr_end r)"
| "orderedRanges (r # r' # rs) =
    (lr_start r \<le> lr_end r \<and> lr_end r \<le> lr_start r' \<and> orderedRanges (r' # rs))"

section \<open>Word utilities (utils/wordUtils.js)\<close>

text \<open>
  A value received as the payload of a socket event: a string, a falsy value that is not
  a string (\<^verbatim>\<open>undefined\<close>, \<^verbatim>\<open>null\<close>, \<^verbatim>\<open>false\<close>, \<^verbatim>\<open>0\<close>, \<^verbatim>\<open>NaN\<close>), or a truthy
  value that is not a string, given by what \<^verbatim>\<open>String(w)\<close> renders.
\<close>

datatype jsval = JStr string | JFalsy | JTruthy string

text \<open>
  Strings are lists of the code units 0 to 255 (Basic Latin and Latin-1 Supplement), which
  hold the accented letters of French. On them \<^verbatim>\<open>trim\<close> removes the characters 9 to 13,
  the space and the no-break space (160) from both ends. \<^verbatim>\<open>toLowerCase\<close> maps A..Z and
  the capital letters 192 to 222, the multiplication sign 215 apart, to the letter 32
  places further.
\<close>

definition isWhiteSpace :: "char \<Rightarrow> bool" where
  "isWhiteSpace c =
    (let n = (of_char c :: nat) in (9 \<le> n \<and> n \<le> 13) \<or> n = 32 \<or> n = 160)"

definition trim :: "string \<Rightarrow> string" where
  "trim s = rev (dropWhile isWhiteSpace (rev (dropWhile isWhiteSpace s)))"

definition toLowerChar :: "char \<Rightarrow> char" where
  "toLowerChar c =
    (let n = (of_char c :: nat) in
     if (65 \<le> n \<and> n \<le> 90) \<or> (192 \<le> n \<and> n \<le> 214) \<or> (216 \<le> n \<and> n \<le> 222)
     then char_of (n + 32) else c)"

definition toLowerCase :: "string \<Rightarrow> string" where
  "toLowerCase s = map toLowerChar s"

text \<open>
  \<^verbatim>\<open>normalize("NFD")\<close> splits an accented letter into its base letter and combining marks.
  The marks lie beyond code 255 and all have the Unicode property Diacritic, so the
  \<^verbatim>\<open>replace\<close> that follows removes them: \<open>nfdBase\<close> is the base letter that stays. The
  letters 198, 208, 216, 222, 223, 230, 240, 248 and 254 have no decomposition. The
  characters below 256 that have the property Diacritic themselves are the circumflex
  (94), the grave accent (96), the diaeresis (168), the macron (175), the acute accent
  (180), the middle dot (183) and the cedilla (184).
\<close>

definition nfdBase :: "char \<Rightarrow> char" where
  "nfdBase c =
    (let n = (of_char c :: nat) in
     if 192 \<le> n \<and> n \<le> 197 then CHR ''A''
     else if n = 199 then CHR ''C''
     else if 200 \<le> n \<and> n \<le> 203 then CHR ''E''
     else if 204 \<le> n \<and> n \<le> 207 then CHR ''I''
     else if n = 209 then CHR ''N''
     else if 210 \<le> n \<and> n \<le> 214 then CHR ''O''
     else if 217 \<le> n \<and> n \<le> 220 then CHR ''U''
     else if n = 221 then CHR ''Y''
     else if 224 \<le> n \<and> n \<le> 229 then CHR ''a''
     else if n = 231 then CHR ''c''
     else if 232 \<le> n \<and> n \<le> 235 then CHR ''e''
     else if 236 \<le> n \<and> n \<le> 239 then CHR ''i''
     else if n = 241 then CHR ''n''
     else if 242 \<le> n \<and> n \<le> 246 then CHR ''o''
     else if 249 \<le> n \<and> n \<le> 252 then CHR ''u''
     else if n = 253 \<or> n = 255 then CHR ''y''
     else c)"

definition isDiacritic :: "char \<Rightarrow> bool" where
  "isDiacritic c =
    (let n = (of_char c :: nat) in
     n = 94 \<or> n = 96 \<or> n = 168 \<or> n = 175 \<or> n = 180 \<or> n = 183 \<or> n = 184)"

definition stripDiacritics :: "string \<Rightarrow> string" where
  "stripDiacritics s = filter (\<lambda>c. \<not> isDiacritic c) (map nfdBase s)"

definition normalizeString :: "string \<Rightarrow> string" where
  "normalizeString s = stripDiacritics (toLowerCase (trim s))"

fun normalizeWord :: "jsval \<Rightarrow> string" where
  "normalizeWord JFalsy = []"
| "normalizeWord (JStr s) = (if s = [] then [] else normalizeString s)"
| "normalizeWord (JTruthy s) = normalizeString s"

text \<open>
  \<^verbatim>\<open>generatePunishedLetters\<close>: the number of letters by level, and the rejection loop
  over random draws (each draw a number below 26). The draws are an argument; the loop
  returns \<open>None\<close> when they run out before enough distinct letters were found.
\<close>

definition punishedCount :: "int \<Rightarrow> nat" where
  "punishedCount level =
    (if level \<ge> 16 then 3 else if level \<ge> 13 then 2 else if level \<ge> 10 then 1 else 0)"

fun drawLetters :: "nat \<Rightarrow> char list \<Rightarrow> nat list \<Rightarrow> char list option" where
  "drawLetters count letters draws =
    (if length letters < count then
       (case draws of
          [] \<Rightarrow> None
        | d # ds \<Rightarrow>
            (let letter = char_of (97 + d) in
             if letter \<in> set letters then drawLetters count letters ds
             else drawLetters count (letters @ [letter]) ds))
     else Some letters)"

declare drawLetters.simps [simp del]

definition generatePunishedLetters :: "int \<Rightarrow> nat list \<Rightarrow> char list option" where
  "generatePunishedLetters level draws = drawLetters (punishedCount level) [] draws"

section \<open>Rooms (game/roomManager.js)\<close>

type_synonym sid = string

record player =
  name :: string
  score :: int
  alive :: bool
  online :: bool

text \<open>
  A JavaScript \<^verbatim>\<open>Map\<close> is an association list in insertion order with distinct keys:
  \<^verbatim>\<open>get\<close> is \<^const>\<open>map_of\<close>, \<^verbatim>\<open>set\<close> is \<^const>\<open>AList.update\<close> (an existing key keeps its
  place), \<^verbatim>\<open>delete\<close> is \<^const>\<open>AList.delete\<close>. A \<^verbatim>\<open>Set\<close> is a list in insertion order
  without repetition.
\<close>

definition mapHas :: "('k \<times> 'v) list \<Rightarrow> 'k \<Rightarrow> bool" where
  "mapHas m k = (map_of m k \<noteq> None)"

definition setAdd :: "'a \<Rightarrow> 'a list \<Rightarrow> 'a list" where
  "setAdd x xs = (if x \<in> set xs then xs else xs @ [x])"

definition setDelete :: "'a \<Rightarrow> 'a list \<Rightarrow> 'a list" where
  "setDelete x xs = removeAll x xs"

text \<open>Truthiness of a string-or-null value: \<^verbatim>\<open>null\<close> and the empty string are falsy.\<close>

fun truthyStr :: "string option \<Rightarrow> bool" where
  "truthyStr None = False"
| "truthyStr (Some s) = (s \<noteq> [])"

text \<open>Truthiness of a number-or-null value: \<^verbatim>\<open>null\<close>, \<^verbatim>\<open>undefined\<close> and 0 are falsy.\<close>

fun truthyNum :: "int option \<Rightarrow> bool" where
  "truthyNum None = False"
| "truthyNum (Some n) = (n \<noteq> 0)"

text \<open>
  The room state of \<^verbatim>\<open>createRoom\<close>. Times are milliseconds as \<^verbatim>\<open>Date.now()\<close> gives them.
  The timer handles of \<^verbatim>\<open>room.timers\<close> are not part of the record: arming and cancelling
  a timer are effects (see below). The fields \<^verbatim>\<open>baseTurnMs\<close>, \<^verbatim>\<open>minTurnMs\<close> and
  \<^verbatim>\<open>turnDecayMs\<close> are never read by the modules modelled here and are left out.
\<close>

record room =
  players :: "(sid \<times> player) list"
  hostId :: "sid option"
  round_no :: nat
  theme :: "string option"
  turn :: nat
  accepting :: bool
  submissions :: "(sid \<times> string) list"
  usedWords :: "string list"
  wordSet :: "string list"
  createdAt :: int
  lastActivity :: int
  votes :: "(sid \<times> sid list) list"
  votingActive :: bool
  themes :: "string list"
  gameActive :: bool
  level :: int
  punishedLetters :: "char list"
  botId :: "sid option"
  turnStartedAt :: "int option"
  currentTurnDuration :: "int option"
  submissionTimes :: "(sid \<times> int) list"

definition createRoom :: "int \<Rightarrow> room" where
  "createRoom now =
    \<lparr> players = [], hostId = None, round_no = 0, theme = None, turn = 0,
      accepting = False, submissions = [], usedWords = [], wordSet = [],
      createdAt = now, lastActivity = now, votes = [], votingActive = False,
      themes = [''Jeux Vid'' @ [CHR 0xE9] @ ''os (Nom Exact)'', ''Personnage de LoL'',
                ''Pok'' @ [CHR 0xE9] @ ''mons'', ''Couleurs'', ''M'' @ [CHR 0xE9] @ ''tiers'',
                ''Pays'', ''Pr'' @ [CHR 0xE9] @ ''noms'', ''Marques'', ''Anime''],
      gameActive = False, level = 0, punishedLetters = [], botId = None,
      turnStartedAt = None, currentTurnDuration = None, submissionTimes = [] \<rparr>"

text \<open>\<^verbatim>\<open>getRoom\<close>: the registry creates a room on the first reference to its code.\<close>

definition getRoom :: "int \<Rightarrow> string \<Rightarrow> (string \<times> room) list \<Rightarrow> room \<times> (string \<times> room) list" where
  "getRoom now code rooms =
    (case map_of rooms code of
       Some r \<Rightarrow> (r, rooms)
     | None \<Rightarrow> (createRoom now, AList.update code (createRoom now) rooms))"

definition touchRoom :: "int \<Rightarrow> room \<Rightarrow> room" where
  "touchRoom now r = r\<lparr>lastActivity := now\<rparr>"

definition onlineCount :: "room \<Rightarrow> nat" where
  "onlineCount r = length (filter (\<lambda>(pid, p). online p) (players r))"

definition aliveIds :: "room \<Rightarrow> sid list" where
  "aliveIds r = map fst (filter (\<lambda>(pid, p). alive p) (players r))"

text \<open>The statement \<^verbatim>\<open>if (p) p.alive = false\<close> for the player stored under an id.\<close>

definition markDead :: "sid \<Rightarrow> room \<Rightarrow> room" where
  "markDead s r = r\<lparr>players := AList.map_entry s (\<lambda>p. p\<lparr>alive := False\<rparr>) (players r)\<rparr>"

definition addScore :: "sid \<Rightarrow> int \<Rightarrow> room \<Rightarrow> room" where
  "addScore s n r = r\<lparr>players := AList.map_entry s (\<lambda>p. p\<lparr>score := score p + n\<rparr>) (players r)\<rparr>"

text \<open>The count of online humans that the handlers compute before deciding on the bot.\<close>

definition humanOnline :: "room \<Rightarrow> nat" where
  "humanOnline r =
    length (filter (\<lambda>(pid, p). Some pid \<noteq> botId r \<and> online p) (players r))"

section \<open>Effects\<close>

text \<open>
  What a handler does besides changing the room: messages sent to one socket or to the
  whole room, and timers armed or cancelled. A timer carries the callback it will run;
  the callbacks that close over local variables carry them. \<open>ClearTimeout\<close> cancels
  the timer of a slot if one is armed. The texts of the messages are constants of the
  configuration and stand here as constructors: \<open>LobbyCreationError\<close> is the one text
  of \<^verbatim>\<open>game:error\<close>, \<open>InvalidWord\<close> the one text of \<^verbatim>\<open>turn:error\<close>. Payloads that only
  serialise the room (\<^verbatim>\<open>lobby:update\<close>) are not repeated in the event.
\<close>

datatype dest = ToSocket sid | ToRoom

datatype message =
    LobbyCreationError
  | InvalidWord
  | NoSubmission
  | Duplicate "string list"
  | OffTopic string
  | GameOver

datatype event =
    GameError message
  | TurnError message
  | TurnAck string
  | TurnProgress nat
  | TurnStart nat int "char list"
  | TurnEnd "(sid \<times> string \<times> string) list" "sid list" "string list" int
  | VoteEliminated "sid list"
  | ElimPopup "(sid \<times> string \<times> string) list"
  | OffTopicPopup "(sid \<times> string) list"
  | LogMessage message
  | LobbyUpdate
  | RoundStart nat "string option"
  | RoundEnd "sid option" nat
  | GameEnd "sid option" nat "(sid \<times> int) list"
  | GameMenu
  | JoinAck bool
  | RoomClosed string

datatype timerSlot = NextTurnT | EndTurnT | NewRoundT | VoteEndT | BotSubmitT | Unnamed

datatype callback =
    CbStartNextTurn
  | CbEndTurn
  | CbFinalizeTurn "sid list"
  | CbFinalizeVote
  | CbProceedAfterPopup "sid list"
  | CbPickWinner
  | CbBotSubmit

datatype effect =
    Emit dest event
  | SetTimeout timerSlot int callback
  | ClearTimeout timerSlot

section \<open>Messages and delays (config/messages.js)\<close>

definition eliminationPopupMs :: int where
  "eliminationPopupMs = 2000"

definition gameOverMs :: int where
  "gameOverMs = 3500"

text \<open>
  The module exports the keys \<^verbatim>\<open>MESSAGES\<close>, \<^verbatim>\<open>DELAY_CONFIG\<close> and \<^verbatim>\<open>CONFIG\<close>, and no
  other. \<^verbatim>\<open>gameLogic.js\<close> takes its \<^verbatim>\<open>TIMER_CONFIG\<close> from this module (line 2:
  \<^verbatim>\<open>const { MESSAGES, DELAY_CONFIG, TIMER_CONFIG } = require("../config/messages")\<close>), not
  from \<^verbatim>\<open>config/timers.js\<close>: inside \<^verbatim>\<open>gameLogic.js\<close> the name is bound to \<^verbatim>\<open>undefined\<close>,
  and reading a property of it raises a \<^verbatim>\<open>TypeError\<close>. No handler of the server catches
  it.
\<close>

datatype error = TypeError

definition gameLogic_TIMER_CONFIG :: "timerConfig option" where
  "gameLogic_TIMER_CONFIG = None"

section \<open>The bot (config/bot.js)\<close>

text \<open>The decimal rendering of a number inside the template string of \<^verbatim>\<open>addBot\<close>.\<close>

fun showNat :: "nat \<Rightarrow> string" where
  "showNat n =
    (if n < 10 then [char_of (48 + n)]
     else showNat (n div 10) @ [char_of (48 + n mod 10)])"

declare showNat.simps [simp del]

definition showInt :: "int \<Rightarrow> string" where
  "showInt i = (if i < 0 then CHR ''-'' # showNat (nat (- i)) else showNat (nat i))"

definition delayFactor :: rat where
  "delayFactor = 1 / 2"

definition botPlayer :: player where
  "botPlayer = \<lparr>name = ''Bot'', score = 0, alive = False, online = True\<rparr>"

definition addBot :: "int \<Rightarrow> room \<Rightarrow> room" where
  "addBot now r =
    (if truthyStr (botId r) then r
     else
       (let newId = ''bot-'' @ showInt now in
        r\<lparr>players := AList.update newId botPlayer (players r), botId := Some newId\<rparr>))"

definition removeBot :: "room \<Rightarrow> room" where
  "removeBot r =
    (case botId r of
       None \<Rightarrow> r
     | Some b \<Rightarrow>
         if b = [] then r
         else r\<lparr>players := AList.delete b (players r), botId := None\<rparr>)"

text \<open>
  \<^verbatim>\<open>pickBotWord\<close>: the first word of the bank that is unused, free of punished letters
  and not submitted this turn; nothing once the bot itself has submitted.
\<close>

fun pickLoop :: "room \<Rightarrow> string list \<Rightarrow> string option" where
  "pickLoop r [] = None"
| "pickLoop r (word # ws) =
    (if word \<in> set (usedWords r) then pickLoop r ws
     else if (case botId r of None \<Rightarrow> False | Some b \<Rightarrow> mapHas (submissions r) b)
       then pickLoop r ws
     else if (\<exists>l \<in> set (punishedLetters r). l \<in> set word) then pickLoop r ws
     else if (\<exists>e \<in> set (submissions r). snd e = word) then pickLoop r ws
     else Some word)"

definition pickBotWord :: "room \<Rightarrow> string option" where
  "pickBotWord r = pickLoop r (wordSet r)"

text \<open>
  \<^verbatim>\<open>scheduleBotSubmission\<close> arms the bot's timer; what the timer's callback does when it
  fires is outside this development.
\<close>

definition scheduleBotSubmission :: "room \<Rightarrow> effect list" where
  "scheduleBotSubmission r =
    ClearTimeout BotSubmitT #
    (case botId r of
       None \<Rightarrow> []
     | Some b \<Rightarrow>
         if b = [] then []
         else
           (case map_of (players r) b of
              None \<Rightarrow> []
            | Some bp \<Rightarrow>
                if \<not> alive bp then []
                else if \<not> accepting r \<or> \<not> truthyNum (currentTurnDuration r) then []
                else
                  (let dur = the (currentTurnDuration r);
                       delay = max 0 (min (dur - 50) \<lfloor>of_int dur * delayFactor\<rfloor>)
                   in [SetTimeout BotSubmitT delay CbBotSubmit])))"

section \<open>Game flow (game/gameLogic.js)\<close>

text \<open>\<^verbatim>\<open>pickRandom\<close>, with the random index as an argument.\<close>

definition pickRandom :: "'a list \<Rightarrow> nat \<Rightarrow> 'a option" where
  "pickRandom arr i = (if i < length arr then Some (arr ! i) else None)"

text \<open>
  \<^verbatim>\<open>endRound\<close>: three points to the winner, one to every player still alive, the
  scoreboard sorted by descending score (a stable sort), and the room back in the lobby.
\<close>

definition scoreboard :: "room \<Rightarrow> (sid \<times> int) list" where
  "scoreboard r = sort_key (\<lambda>e. - snd e) (map (\<lambda>(pid, p). (pid, score p)) (players r))"

definition endRound :: "int \<Rightarrow> sid option \<Rightarrow> room \<Rightarrow> room \<times> effect list" where
  "endRound now winnerId r =
    (let won = (truthyStr winnerId \<and> mapHas (players r) (the winnerId));
         winner = (if won then winnerId else None);
         r1 = (if won then addScore (the winnerId) 3 r else r);
         r2 = r1\<lparr>players :=
                 map (\<lambda>(pid, p). (pid, if alive p then p\<lparr>score := score p + 1\<rparr> else p))
                   (players r1)\<rparr>;
         scores = scoreboard r2;
         r3 = r2\<lparr>gameActive := False, accepting := False, submissions := [],
                 theme := None, turn := 0, usedWords := [],
                 players := map (\<lambda>(pid, p). (pid, p\<lparr>alive := False\<rparr>)) (players r2)\<rparr>
     in (touchRoom now r3,
         [Emit ToRoom (RoundEnd winner (round_no r)),
          Emit ToRoom LobbyUpdate,
          Emit ToRoom (GameEnd winner (round_no r) scores)]))"

text \<open>
  \<^verbatim>\<open>startNewRound\<close>. The random index of the theme and the word set that the word bank
  resolves for it are arguments; the wait for the word bank is not a step of its own.
\<close>

definition startNewRound :: "int \<Rightarrow> nat \<Rightarrow> string list \<Rightarrow> room \<Rightarrow> room \<times> effect list" where
  "startNewRound now themeIx bank r =
    (let r1 = r\<lparr>round_no := round_no r + 1, turn := 0,
                theme := pickRandom (themes r) themeIx,
                usedWords := [], submissions := [], wordSet := bank,
                punishedLetters := [],
                players :=
                  map (\<lambda>(pid, p). (pid, if online p then p\<lparr>alive := True\<rparr> else p)) (players r)\<rparr>
     in (touchRoom now r1,
         [Emit ToRoom (RoundStart (round_no r1) (theme r1)),
          Emit ToRoom LobbyUpdate,
          SetTimeout NextTurnT 600 CbStartNextTurn]))"

text \<open>
  \<^verbatim>\<open>startNextTurn\<close>. The letters that \<^verbatim>\<open>generatePunishedLetters\<close> drew are an argument.
\<close>

definition startNextTurn :: "int \<Rightarrow> char list \<Rightarrow> room \<Rightarrow> room \<times> effect list" where
  "startNextTurn now letters r =
    (let aliveL = aliveIds r in
     if length aliveL \<le> 1 then
       endRound now (case aliveL of [] \<Rightarrow> None | a # _ \<Rightarrow> if a = [] then None else Some a) r
     else
       (let lvl = level r + 1;
            sec = getTurnDuration lvl;
            turnMs = mathRound (sec * 1000);
            r1 = r\<lparr>turn := turn r + 1, level := lvl, submissions := [], accepting := True,
                    turnStartedAt := Some now, currentTurnDuration := Some turnMs,
                    submissionTimes := [],
                    punishedLetters := (if lvl \<ge> 10 then letters else [])\<rparr>
        in (touchRoom now r1,
            [Emit ToRoom (TurnStart (turn r1) turnMs (punishedLetters r1)),
             SetTimeout EndTurnT turnMs CbEndTurn]
            @ scheduleBotSubmission r1)))"

text \<open>The name shown for an id: \<^verbatim>\<open>room.players.get(sid)?.name || '?'\<close>.\<close>

definition displayName :: "room \<Rightarrow> sid \<Rightarrow> string" where
  "displayName r s =
    (case map_of (players r) s of
       None \<Rightarrow> ''?''
     | Some p \<Rightarrow> if name p = [] then ''?'' else name p)"

text \<open>The word-frequency map of \<^verbatim>\<open>endTurn\<close>: each submitted word with its submitters.\<close>

fun buildFreq :: "(sid \<times> string) list \<Rightarrow> (string \<times> sid list) list \<Rightarrow> (string \<times> sid list) list" where
  "buildFreq [] freq = freq"
| "buildFreq ((s, word) # rest) freq =
    buildFreq rest
      (AList.update word ((case map_of freq word of None \<Rightarrow> [] | Some ids \<Rightarrow> ids) @ [s]) freq)"

definition noSubmissionIds :: "room \<Rightarrow> sid list" where
  "noSubmissionIds r =
    map fst (filter (\<lambda>(pid, p). alive p \<and> \<not> mapHas (submissions r) pid) (players r))"

definition duplicateIds :: "room \<Rightarrow> sid list" where
  "duplicateIds r =
    concat (map snd (filter (\<lambda>(w, ids). length ids \<ge> 2) (buildFreq (submissions r) [])))"

text \<open>The set \<^verbatim>\<open>eliminated\<close>, in the order its members were added.\<close>

definition eliminatedOf :: "room \<Rightarrow> sid list" where
  "eliminatedOf r = fold setAdd (noSubmissionIds r @ duplicateIds r) []"

text \<open>
  The speed score of one submission: \<^verbatim>\<open>10 - Math.floor((elapsed / dur) * 10)\<close>, kept
  between 1 and 10. The quotient is the exact one.
\<close>

definition speedScore :: "int \<Rightarrow> int \<Rightarrow> int" where
  "speedScore elapsed dur =
    (let sc = 10 - \<lfloor>(rat_of_int elapsed / rat_of_int dur) * 10\<rfloor>;
         sc1 = (if sc < 1 then 1 else sc);
         sc2 = (if sc1 > 10 then 10 else sc1)
     in sc2)"

text \<open>The scoring loop of \<^verbatim>\<open>finalizeTurn\<close> over the entries of \<^verbatim>\<open>room.submissions\<close>.\<close>

fun awardLoop :: "sid list \<Rightarrow> (sid \<times> string) list \<Rightarrow> room \<Rightarrow> room" where
  "awardLoop elim [] r = r"
| "awardLoop elim ((s, word) # rest) r =
    (if s \<in> set elim then awardLoop elim rest r
     else if \<not> truthyNum (map_of (submissionTimes r) s) then awardLoop elim rest r
     else
       (let elapsed = the (map_of (submissionTimes r) s) - the (turnStartedAt r);
            dur = the (currentTurnDuration r)
        in awardLoop elim rest (addScore s (speedScore elapsed dur) r)))"

fun rememberLoop :: "sid list \<Rightarrow> (sid \<times> string) list \<Rightarrow> string list \<Rightarrow> string list" where
  "rememberLoop elim [] used = used"
| "rememberLoop elim ((s, word) # rest) used =
    (if s \<notin> set elim then rememberLoop elim rest (setAdd word used)
     else rememberLoop elim rest used)"

text \<open>
  The closure \<^verbatim>\<open>finalizeTurn\<close> of \<^verbatim>\<open>endTurn\<close>, with the eliminated set it closes over as
  an argument. It returns the room, the effects and the exception raised, if any. The
  scores are awarded, \<^verbatim>\<open>lobby:update\<close> is sent and the valid words are remembered; then
  the payload of \<^verbatim>\<open>turn:end\<close> reads \<^verbatim>\<open>TIMER_CONFIG.voteDurationMs\<close>. With the binding
  undefined this raises before the event is sent: the room stays as it is at that point,
  no vote is opened (\<^verbatim>\<open>votes\<close> and \<^verbatim>\<open>votingActive\<close> are not written), the vote timer is
  not armed and \<^verbatim>\<open>touchRoom\<close> is not reached.
\<close>

definition finalizeTurn :: "int \<Rightarrow> sid list \<Rightarrow> room \<Rightarrow> room \<times> effect list \<times> error option" where
  "finalizeTurn now elim r =
    (let r1 = (if truthyNum (turnStartedAt r) \<and> truthyNum (currentTurnDuration r)
               then awardLoop elim (submissions r) r else r);
         r2 = r1\<lparr>usedWords := rememberLoop elim (submissions r1) (usedWords r1)\<rparr>
     in case gameLogic_TIMER_CONFIG of
          None \<Rightarrow> (r2, [Emit ToRoom LobbyUpdate], Some TypeError)
        | Some cfg \<Rightarrow>
            (let r3 = r2\<lparr>votes := fold (\<lambda>(s, w) vs. AList.update s [] vs) (submissions r2) [],
                         votingActive := True\<rparr>
             in (touchRoom now r3,
                 [Emit ToRoom LobbyUpdate,
                  Emit ToRoom (TurnEnd (map (\<lambda>(s, w). (s, displayName r2 s, w)) (submissions r2))
                                  elim (usedWords r2) (voteDurationMsOf cfg)),
                  SetTimeout VoteEndT (voteDurationMsOf cfg) CbFinalizeVote],
                 None)))"

text \<open>
  \<^verbatim>\<open>endTurn\<close>. With eliminations the popup is sent and \<^verbatim>\<open>finalizeTurn\<close> is armed on a
  timer; without, \<^verbatim>\<open>finalizeTurn\<close> runs at once and its exception leaves \<^verbatim>\<open>endTurn\<close>.
\<close>

definition endTurn :: "int \<Rightarrow> room \<Rightarrow> room \<times> effect list \<times> error option" where
  "endTurn now r =
    (let r1 = r\<lparr>accepting := False\<rparr>;
         dups = duplicateIds r1;
         elim = eliminatedOf r1;
         msgs = (if submissions r1 = [] then [Emit ToRoom (LogMessage NoSubmission)] else [])
              @ (if dups \<noteq> []
                 then [Emit ToRoom (LogMessage (Duplicate (fold setAdd (map (displayName r1) dups) [])))]
                 else []);
         elimList = map (\<lambda>s. (s, displayName r1 s,
                         if s \<in> set (noSubmissionIds r1) then ''noSubmission'' else ''duplicate'')) elim;
         r2 = fold markDead elim r1
     in if elimList \<noteq> [] then
          (r2, msgs @ [Emit ToRoom (ElimPopup elimList),
                       SetTimeout Unnamed eliminationPopupMs (CbFinalizeTurn elim)], None)
        else
          (let (r3, effs, err) = finalizeTurn now elim r2 in (r3, msgs @ effs, err)))"

text \<open>
  Turn resolution from the turn timeout to the end of \<^verbatim>\<open>finalizeTurn\<close>, when no other
  event reaches the room while the elimination popup is shown: \<^verbatim>\<open>endTurn\<close> at \<open>now\<close>,
  then \<^verbatim>\<open>finalizeTurn\<close> (at once, or at \<open>later\<close> when the popup delayed it). The result
  is the room as \<^verbatim>\<open>finalizeTurn\<close> leaves it.
\<close>

definition resolveTurn :: "int \<Rightarrow> int \<Rightarrow> room \<Rightarrow> room" where
  "resolveTurn now later r =
    (let (r1, effs, err) = endTurn now r in
     if eliminatedOf (r\<lparr>accepting := False\<rparr>) \<noteq> []
     then fst (finalizeTurn later (eliminatedOf (r\<lparr>accepting := False\<rparr>)) r1)
     else r1)"

text \<open>
  \<^verbatim>\<open>finalizeVote\<close>. The majority threshold of a target counts the players alive when the
  function runs, the target left out.
\<close>

definition majorityThreshold :: "sid list \<Rightarrow> sid \<Rightarrow> nat" where
  "majorityThreshold aliveL target = length (filter (\<lambda>s. s \<noteq> target) aliveL) div 2 + 1"

definition isAlive :: "room \<Rightarrow> sid \<Rightarrow> bool" where
  "isAlive r s = (case map_of (players r) s of None \<Rightarrow> False | Some p \<Rightarrow> alive p)"

fun voteLoop :: "room \<Rightarrow> sid list \<Rightarrow> (sid \<times> sid list) list \<Rightarrow> sid list \<Rightarrow> sid list" where
  "voteLoop r aliveBefore [] out = out"
| "voteLoop r aliveBefore ((targetId, voters) # rest) out =
    (if \<not> isAlive r targetId then voteLoop r aliveBefore rest out
     else if length voters \<ge> majorityThreshold aliveBefore targetId
       then voteLoop r aliveBefore rest (setAdd targetId out)
     else voteLoop r aliveBefore rest out)"

definition eliminatedByVote :: "room \<Rightarrow> sid list" where
  "eliminatedByVote r = voteLoop r (aliveIds r) (votes r) []"

text \<open>The statements applied to one player disqualified by vote.\<close>

definition voteOut :: "sid \<Rightarrow> room \<Rightarrow> room" where
  "voteOut s r =
    (let r1 = markDead s r in
     case map_of (submissions r1) s of
       None \<Rightarrow> r1
     | Some word \<Rightarrow> if word = [] then r1 else r1\<lparr>usedWords := setDelete word (usedWords r1)\<rparr>)"

definition proceedAfterPopup :: "sid list \<Rightarrow> room \<Rightarrow> room \<times> effect list" where
  "proceedAfterPopup elimByVote r =
    (let r1 = fold voteOut elimByVote r;
         r2 = r1\<lparr>votes := []\<rparr>;
         remaining = aliveIds r2;
         levelExceeded = (level r2 \<ge> 20)
     in if levelExceeded \<or> length remaining \<le> 1 then
          (r2, [Emit ToRoom (LogMessage GameOver), SetTimeout NewRoundT gameOverMs CbPickWinner])
        else
          (r2, [SetTimeout NextTurnT (if level r2 \<ge> 10 then 0 else 900) CbStartNextTurn]))"

text \<open>
  The callback armed at game over: the id with the highest score, the running maximum
  starting at minus infinity (\<open>None\<close>), then \<^verbatim>\<open>endRound\<close> with it.
\<close>

fun bestLoop :: "(sid \<times> player) list \<Rightarrow> sid option \<Rightarrow> int option \<Rightarrow> sid option" where
  "bestLoop [] bestId maxScore = bestId"
| "bestLoop ((pid, p) # rest) bestId maxScore =
    (if (case maxScore of None \<Rightarrow> True | Some m \<Rightarrow> score p > m)
     then bestLoop rest (Some pid) (Some (score p))
     else bestLoop rest bestId maxScore)"

definition pickWinner :: "room \<Rightarrow> sid option" where
  "pickWinner r = bestLoop (players r) None None"

definition gameOverCallback :: "int \<Rightarrow> room \<Rightarrow> room \<times> effect list" where
  "gameOverCallback now r = endRound now (pickWinner r) r"

definition finalizeVote :: "room \<Rightarrow> room \<times> effect list" where
  "finalizeVote r =
    (if \<not> votingActive r then (r, [])
     else
       (let r1 = r\<lparr>votingActive := False\<rparr>;
            elim = eliminatedByVote r1;
            popupEvents = filter (\<lambda>s. mapHas (players r1) s) elim
        in if popupEvents \<noteq> [] then
             (r1, [ClearTimeout VoteEndT, Emit ToRoom (VoteEliminated elim)]
                  @ map (\<lambda>s. Emit ToRoom (LogMessage (OffTopic (name (the (map_of (players r1) s))))))
                      popupEvents
                  @ [Emit ToRoom
                       (OffTopicPopup
                         (map (\<lambda>s. (s, name (the (map_of (players r1) s)))) popupEvents)),
                     SetTimeout NewRoundT eliminationPopupMs (CbProceedAfterPopup elim)])
           else
             (let (r2, effs) = proceedAfterPopup elim r1 in (r2, ClearTimeout VoteEndT # effs))))"

text \<open>
  Vote resolution from the vote timeout to the decision that follows it, when no other
  event reaches the room while the popup is shown: the room after the eliminations by
  vote were applied, and the winner that the game-over callback hands to \<^verbatim>\<open>endRound\<close>
  (\<open>None\<close> in the outer option when the game goes on with the next turn).
\<close>

definition endOfGame :: "room \<Rightarrow> bool" where
  "endOfGame r = (level r \<ge> 20 \<or> length (aliveIds r) \<le> 1)"

definition resolveVote :: "room \<Rightarrow> room \<times> sid option option" where
  "resolveVote r =
    (if \<not> votingActive r then (r, None)
     else
       (let r1 = r\<lparr>votingActive := False\<rparr>;
            r2 = fst (proceedAfterPopup (eliminatedByVote r1) r1)
        in (r2, if endOfGame r2 then Some (pickWinner r2) else None)))"

section \<open>Socket handlers (socket/handlers.js)\<close>

text \<open>
  Every handler first fetches the room bound to the socket with \<^verbatim>\<open>getRoom\<close>, which
  always yields a room; the handlers below take that room, the id of the sending socket
  and the current time.
\<close>

definition cleanName :: "jsval \<Rightarrow> string" where
  "cleanName v =
    (let raw = (case v of JFalsy \<Rightarrow> ''Joueur''
                       | JStr s \<Rightarrow> if s = [] then ''Joueur'' else s
                       | JTruthy s \<Rightarrow> s);
         cut = take 20 (trim raw)
     in if cut = [] then ''Joueur'' else cut)"

definition handlePlayerJoin :: "int \<Rightarrow> sid \<Rightarrow> jsval \<Rightarrow> bool \<Rightarrow> room \<Rightarrow> room \<times> effect list" where
  "handlePlayerJoin now sock nm hasAck r =
    (let r1 = r\<lparr>players :=
                 AList.update sock \<lparr>name = cleanName nm, score = 0, alive = False, online = True\<rparr>
                   (players r)\<rparr>;
         r2 = (if \<not> truthyStr (hostId r1) then r1\<lparr>hostId := Some sock\<rparr> else r1);
         r3 = (if truthyStr (botId r2) \<and> humanOnline r2 \<ge> 2 then removeBot r2 else r2)
     in (touchRoom now r3,
         Emit ToRoom LobbyUpdate #
         (if hasAck then [Emit (ToSocket sock) (JoinAck (hostId r3 = Some sock))] else [])))"

definition handleGameStart :: "int \<Rightarrow> sid \<Rightarrow> nat \<Rightarrow> string list \<Rightarrow> room \<Rightarrow> room \<times> effect list" where
  "handleGameStart now sock themeIx bank r =
    (if Some sock \<noteq> hostId r then (r, [])
     else if gameActive r then (r, [Emit (ToSocket sock) (GameError LobbyCreationError)])
     else
       (let r1 = (if humanOnline r < 2 then addBot now r else r) in
        if onlineCount r1 < 2 then (r1, [Emit (ToSocket sock) (GameError LobbyCreationError)])
        else startNewRound now themeIx bank
               (r1\<lparr>gameActive := True, level := 0, punishedLetters := []\<rparr>)))"

definition handleGameMenu :: "int \<Rightarrow> sid \<Rightarrow> room \<Rightarrow> room \<times> effect list" where
  "handleGameMenu now sock r =
    (if Some sock \<noteq> hostId r then (r, [])
     else (touchRoom now r, [Emit ToRoom GameMenu]))"

definition handleGameRestart :: "int \<Rightarrow> sid \<Rightarrow> nat \<Rightarrow> string list \<Rightarrow> room \<Rightarrow> room \<times> effect list" where
  "handleGameRestart now sock themeIx bank r =
    (if Some sock \<noteq> hostId r then (r, [])
     else if gameActive r then (r, [Emit (ToSocket sock) (GameError LobbyCreationError)])
     else
       (let r1 = (if humanOnline r < 2 then addBot now r else r) in
        if onlineCount r1 < 2 then (r1, [Emit (ToSocket sock) (GameError LobbyCreationError)])
        else startNewRound now themeIx bank
               (r1\<lparr>gameActive := True, level := 0, punishedLetters := []\<rparr>)))"

definition handleTurnSubmit :: "int \<Rightarrow> sid \<Rightarrow> jsval \<Rightarrow> room \<Rightarrow> room \<times> effect list" where
  "handleTurnSubmit now sock word r =
    (if \<not> accepting r then (r, [])
     else if \<not> isAlive r sock then (r, [])
     else
       (let normalized = normalizeWord word in
        if normalized = [] then (r, [])
        else
          (let alreadyUsed = (normalized \<in> set (usedWords r));
               notInBank = (wordSet r \<noteq> [] \<and> normalized \<notin> set (wordSet r));
               hasPunished = (\<exists>letter \<in> set (punishedLetters r). letter \<in> set normalized)
           in if alreadyUsed \<or> notInBank \<or> hasPunished
              then (r, [Emit (ToSocket sock) (TurnError InvalidWord)])
              else if \<not> mapHas (submissions r) sock then
                (let r1 = r\<lparr>submissions := AList.update sock normalized (submissions r),
                            submissionTimes := AList.update sock now (submissionTimes r)\<rparr>
                 in (touchRoom now r1,
                     [Emit (ToSocket sock) (TurnAck normalized),
                      Emit ToRoom (TurnProgress (length (submissions r1)))]))
              else (r, []))))"

definition handleTurnVote :: "int \<Rightarrow> sid \<Rightarrow> sid \<Rightarrow> room \<Rightarrow> room \<times> effect list" where
  "handleTurnVote now sock target r =
    (if \<not> votingActive r then (r, [])
     else if \<not> isAlive r sock then (r, [])
     else if \<not> isAlive r target then (r, [])
     else if target = sock then (r, [])
     else if \<not> mapHas (submissions r) target then (r, [])
     else
       (let r1 = (if \<not> mapHas (votes r) target
                  then r\<lparr>votes := AList.update target [] (votes r)\<rparr> else r);
            votersSet = the (map_of (votes r1) target)
        in if sock \<in> set votersSet then (r1, [])
           else
             (let votersSet' = votersSet @ [sock];
                  r2 = r1\<lparr>votes := AList.update target votersSet' (votes r1)\<rparr>;
                  effThreshold = majorityThreshold (aliveIds r2) target
              in if length votersSet' \<ge> effThreshold then
                   (touchRoom now (voteOut target r2),
                    [Emit ToRoom (VoteEliminated [target]), Emit ToRoom LobbyUpdate])
                 else (touchRoom now r2, []))))"

text \<open>
  \<^verbatim>\<open>handleDisconnect\<close>. The room is \<open>None\<close> afterwards when \<^verbatim>\<open>killRoom\<close> removed it from
  the registry.
\<close>

definition handleDisconnect :: "int \<Rightarrow> sid \<Rightarrow> room \<Rightarrow> room option \<times> effect list" where
  "handleDisconnect now sock r =
    (let wasHost = (Some sock = hostId r);
         r1 = r\<lparr>players :=
                 AList.map_entry sock (\<lambda>p. p\<lparr>online := False, alive := False\<rparr>) (players r)\<rparr>;
         r2 = (if wasHost
               then r1\<lparr>hostId :=
                       (case find (\<lambda>(pid, p). online p) (players r1) of
                          None \<Rightarrow> None
                        | Some (pid, p) \<Rightarrow> if pid = [] then None else Some pid)\<rparr>
               else r1);
         r3 = (if gameActive r2 \<and> humanOnline r2 < 2 then addBot now r2 else r2)
     in if onlineCount r3 = 0
        then (None,
              map ClearTimeout [NextTurnT, EndTurnT, NewRoundT, VoteEndT, BotSubmitT]
              @ [Emit ToRoom (RoomClosed ''empty'')])
        else (Some r3, [Emit ToRoom LobbyUpdate]))"

section \<open>Notions used to state the properties\<close>

text \<open>
  The keys of the roster, the roster entries stored under the room's bot id, and the
  invariant of the bot: the roster is a map, and the bot id is either unset, with no
  entry counted as the bot, or a non-empty key that exactly one entry carries. The
  \<open>roster\<close> of a room is what the invariant depends on.
\<close>

definition keysOf :: "room \<Rightarrow> sid list" where
  "keysOf r = map fst (players r)"

definition botEntries :: "room \<Rightarrow> (sid \<times> player) list" where
  "botEntries r = filter (\<lambda>e. Some (fst e) = botId r) (players r)"

definition botInv :: "room \<Rightarrow> bool" where
  "botInv r =
    (distinct (keysOf r) \<and>
     (if botId r = None then botEntries r = []
      else truthyStr (botId r) \<and> length (botEntries r) = 1))"

definition roster :: "room \<Rightarrow> sid list \<times> sid option" where
  "roster r = (keysOf r, botId r)"

text \<open>The three rejection rules of a submission, for a normalized word.\<close>

definition refused :: "room \<Rightarrow> string \<Rightarrow> bool" where
  "refused r w =
    (w \<in> set (usedWords r)
     \<or> (wordSet r \<noteq> [] \<and> w \<notin> set (wordSet r))
     \<or> (\<exists>letter \<in> set (punishedLetters r). letter \<in> set w))"

text \<open>The ballots cast against a target so far.\<close>

definition ballots :: "room \<Rightarrow> sid \<Rightarrow> sid list" where
  "ballots r t = (case map_of (votes r) t of None \<Rightarrow> [] | Some vs \<Rightarrow> vs)"

text \<open>The submitters of a word, in submission order, and a player's score.\<close>

definition submittersOf :: "room \<Rightarrow> string \<Rightarrow> sid list" where
  "submittersOf r w = map fst (filter (\<lambda>e. snd e = w) (submissions r))"

definition scoreOf :: "room \<Rightarrow> sid \<Rightarrow> int" where
  "scoreOf r s = (case map_of (players r) s of None \<Rightarrow> 0 | Some p \<Rightarrow> score p)"

text \<open>
  The points that the scoring loop gives a player who has a submission: the speed score
  of the submission, unless the player is in the eliminated set, has no recorded
  submission instant or is not on the roster.
\<close>

definition award :: "sid list \<Rightarrow> room \<Rightarrow> sid \<Rightarrow> int" where
  "award elim r s =
    (if s \<notin> set elim \<and> truthyNum (map_of (submissionTimes r) s) \<and> mapHas (players r) s
     then speedScore (the (map_of (submissionTimes r) s) - the (turnStartedAt r))
            (the (currentTurnDuration r))
     else 0)"

section \<open>Concrete rooms\<close>

text \<open>
  A lobby after one player has joined; the same with a bot added; and a lobby whose
  only player, the host, is marked offline.
\<close>

definition soloLobby :: room where
  "soloLobby = fst (handlePlayerJoin 1000 ''s1'' (JStr ''Ann'') True (createRoom 0))"

definition botLobby :: room where
  "botLobby = addBot 2000 soloLobby"

definition strandedLobby :: room where
  "strandedLobby =
    (createRoom 0)\<lparr>players := [(''s1'', \<lparr>name = ''Ann'', score = 0, alive = False, online = False\<rparr>)],
                   hostId := Some ''s1''\<rparr>"

text \<open>
  A turn of three alive players that accepts submissions, ten seconds long and started
  at instant 5000; the same at level 10 with the letter u punished.
\<close>

definition openTurn :: room where
  "openTurn =
    (createRoom 0)\<lparr>players := [(''s1'', \<lparr>name = ''Ann'', score = 0, alive = True, online = True\<rparr>),
                               (''s2'', \<lparr>name = ''Bob'', score = 0, alive = True, online = True\<rparr>),
                               (''s3'', \<lparr>name = ''Cyd'', score = 0, alive = True, online = True\<rparr>)],
                   hostId := Some ''s1'', gameActive := True, round_no := 1, turn := 1, level := 1,
                   theme := Some ''Couleurs'', accepting := True,
                   wordSet := [''rouge'', ''vert'', ''bleu''], usedWords := [''vert''],
                   turnStartedAt := Some 5000, currentTurnDuration := Some 10000\<rparr>"

definition punishedTurn :: room where
  "punishedTurn = openTurn\<lparr>level := 10, punishedLetters := [CHR ''u'']\<rparr>"

text \<open>
  The same turn at its timeout: with two players on the same word, and with one player
  who has not submitted.
\<close>

definition chatTurn :: room where
  "chatTurn =
    openTurn\<lparr>theme := Some ''Animaux'', wordSet := [], usedWords := [],
             submissions := [(''s1'', ''chat''), (''s2'', ''chat''), (''s3'', ''chien'')],
             submissionTimes := [(''s1'', 6000), (''s2'', 7500), (''s3'', 8999)]\<rparr>"

definition silentTurn :: room where
  "silentTurn =
    openTurn\<lparr>wordSet := [], usedWords := [],
             submissions := [(''s1'', ''rouge''), (''s3'', ''bleu'')],
             submissionTimes := [(''s1'', 6000), (''s3'', 14999)]\<rparr>"

text \<open>
  Rooms with an open vote. \<^verbatim>\<open>finalizeTurn\<close> raises before it opens the vote, so these
  rooms are written out field by field: they are what the statements below the raising
  line (\<^verbatim>\<open>votes\<close> with an empty set for every submitter, \<^verbatim>\<open>votingActive\<close> set) would
  make of the room that turn resolution leaves.

  The vote that follows a turn in which all three players submitted.
\<close>

definition threeVoting :: room where
  "threeVoting =
    openTurn\<lparr>accepting := False,
             submissions := [(''s1'', ''rouge''), (''s2'', ''bleu''), (''s3'', ''noir'')],
             submissionTimes := [(''s1'', 7000), (''s2'', 8000), (''s3'', 9000)],
             usedWords := [''vert'', ''rouge'', ''bleu'', ''noir''], wordSet := [],
             votes := [(''s1'', []), (''s2'', []), (''s3'', [])], votingActive := True\<rparr>"

text \<open>
  A turn of five players who all submitted; the vote on that turn, with the scores and
  the used words that its resolution writes; and the room after five ballots: two
  against \<open>s4\<close>, then three against \<open>s5\<close>.
\<close>

definition fiveTurn :: room where
  "fiveTurn =
    (createRoom 0)\<lparr>players := [(''s1'', \<lparr>name = ''Ann'', score = 0, alive = True, online = True\<rparr>),
                               (''s2'', \<lparr>name = ''Bob'', score = 0, alive = True, online = True\<rparr>),
                               (''s3'', \<lparr>name = ''Cyd'', score = 0, alive = True, online = True\<rparr>),
                               (''s4'', \<lparr>name = ''Dee'', score = 0, alive = True, online = True\<rparr>),
                               (''s5'', \<lparr>name = ''Eli'', score = 0, alive = True, online = True\<rparr>)],
                   hostId := Some ''s1'', gameActive := True, round_no := 1, turn := 1, level := 1,
                   theme := Some ''Couleurs'', accepting := True,
                   submissions := [(''s1'', ''rouge''), (''s2'', ''bleu''), (''s3'', ''noir''),
                                   (''s4'', ''chat''), (''s5'', ''chien'')],
                   submissionTimes := [(''s1'', 6000), (''s2'', 7000), (''s3'', 8000),
                                       (''s4'', 9000), (''s5'', 9500)],
                   turnStartedAt := Some 5000, currentTurnDuration := Some 10000\<rparr>"

definition fiveVoting :: room where
  "fiveVoting =
    fiveTurn\<lparr>players := [(''s1'', \<lparr>name = ''Ann'', score = 9, alive = True, online = True\<rparr>),
                         (''s2'', \<lparr>name = ''Bob'', score = 8, alive = True, online = True\<rparr>),
                         (''s3'', \<lparr>name = ''Cyd'', score = 7, alive = True, online = True\<rparr>),
                         (''s4'', \<lparr>name = ''Dee'', score = 6, alive = True, online = True\<rparr>),
                         (''s5'', \<lparr>name = ''Eli'', score = 6, alive = True, online = True\<rparr>)],
             accepting := False,
             usedWords := [''rouge'', ''bleu'', ''noir'', ''chat'', ''chien''],
             votes := [(''s1'', []), (''s2'', []), (''s3'', []), (''s4'', []), (''s5'', [])],
             votingActive := True, lastActivity := 15000\<rparr>"

definition fiveVoted :: room where
  "fiveVoted =
    fold (\<lambda>(voter, target) r. fst (handleTurnVote 16000 voter target r))
      [(''s1'', ''s4''), (''s2'', ''s4''), (''s1'', ''s5''), (''s2'', ''s5''), (''s3'', ''s5'')]
      fiveVoting"

text \<open>
  A duel in which \<open>s1\<close> leads by far; the vote on that turn; and the room after one
  ballot of \<open>s2\<close> against \<open>s1\<close>, which is a majority of the one other player alive.
\<close>

definition duelTurn :: room where
  "duelTurn =
    (createRoom 0)\<lparr>players := [(''s1'', \<lparr>name = ''Ann'', score = 20, alive = True, online = True\<rparr>),
                               (''s2'', \<lparr>name = ''Bob'', score = 2, alive = True, online = True\<rparr>)],
                   hostId := Some ''s1'', gameActive := True, round_no := 1, turn := 3, level := 3,
                   theme := Some ''Couleurs'', accepting := True,
                   submissions := [(''s1'', ''rouge''), (''s2'', ''bleu'')],
                   submissionTimes := [(''s1'', 6000), (''s2'', 7000)],
                   turnStartedAt := Some 5000, currentTurnDuration := Some 10000\<rparr>"

definition duelVoting :: room where
  "duelVoting =
    duelTurn\<lparr>players := [(''s1'', \<lparr>name = ''Ann'', score = 29, alive = True, online = True\<rparr>),
                         (''s2'', \<lparr>name = ''Bob'', score = 10, alive = True, online = True\<rparr>)],
             accepting := False, usedWords := [''rouge'', ''bleu''],
             votes := [(''s1'', []), (''s2'', [])],
             votingActive := True, lastActivity := 15000\<rparr>"


section \<open>The concrete rooms, evaluated\<close>

lemma showInt_2000: "''bot-'' @ showInt 2000 = ''bot-2000''"
  by code_simp

lemma showInt_2000_digits: "showInt 2000 = ''2000''"
  by code_simp

lemma soloLobby_eq: "soloLobby = (createRoom 0)\<lparr>players := [(''s1'', \<lparr>name = ''Ann'', score = 0, alive = False, online = True\<rparr>)],
                   hostId := Some ''s1'', lastActivity := 1000\<rparr>"
  by (simp add: soloLobby_def handlePlayerJoin_def createRoom_def Let_def cleanName_def trim_def isWhiteSpace_def touchRoom_def humanOnline_def)

lemma botLobby_eq:
  "botLobby = (createRoom 0)\<lparr>players := [(''s1'', \<lparr>name = ''Ann'', score = 0, alive = False, online = True\<rparr>),
                                          (''bot-2000'', botPlayer)],
                   hostId := Some ''s1'', lastActivity := 1000, botId := Some ''bot-2000''\<rparr>"
  by (simp add: botLobby_def soloLobby_eq addBot_def Let_def createRoom_def showInt_2000_digits)

section \<open>Turn duration\<close>

lemma rangeLoop_skip:
  "\<forall>p\<in>set pre. lr_start p \<le> lr_end p \<and> lr_end p < lvl \<Longrightarrow>
   rangeLoop (pre @ rs) lvl = rangeLoop rs lvl"
  by (induction pre) auto

lemma ordered_forward: "orderedRanges rs \<Longrightarrow> p \<in> set rs \<Longrightarrow> lr_start p \<le> lr_end p"
  by (induction rs rule: orderedRanges.induct) auto

lemma ordered_ends_le_last:
  "orderedRanges rs \<Longrightarrow> \<forall>p\<in>set rs. lr_end p \<le> lr_end (last rs)"
proof (induction rs rule: orderedRanges.induct)
  case 1
  then show ?case by simp
next
  case (2 r)
  then show ?case by simp
next
  case (3 r r' rs)
  have ord: "orderedRanges (r' # rs)" and step: "lr_end r \<le> lr_start r'"
    using "3.prems" by simp_all
  have fwd: "lr_start r' \<le> lr_end r'"
    using ord ordered_forward [of "r' # rs" r'] by simp
  have tl: "\<forall>p\<in>set (r' # rs). lr_end p \<le> lr_end (last (r' # rs))"
    using "3.IH" ord by blast
  then have "lr_end r' \<le> lr_end (last (r' # rs))" by simp
  then have "lr_end r \<le> lr_end (last (r' # rs))" using step fwd by linarith
  then show ?case using tl by simp
qed

lemma rangeLoop_above:
  assumes "orderedRanges rs" "lr_end (last rs) < lvl"
  shows "rangeLoop rs lvl = None"
proof -
  have "\<forall>p\<in>set rs. lr_start p \<le> lr_end p \<and> lr_end p < lvl"
    using assms ordered_forward ordered_ends_le_last by fastforce
  then show ?thesis using rangeLoop_skip [of rs lvl "[]"] by simp
qed

lemma rangeLoop_within:
  assumes "orderedRanges (pre @ r # post)" "\<forall>p\<in>set pre. lr_end p < lvl"
    "lr_start r \<le> lvl" "lvl \<le> lr_end r" "lr_start r < lr_end r"
  shows "rangeLoop (pre @ r # post) lvl =
    Some (startSec r - of_int (lvl - lr_start r)
            * ((startSec r - endSec r) / of_int (lr_end r - lr_start r)))"
proof -
  have "\<forall>p\<in>set pre. lr_start p \<le> lr_end p \<and> lr_end p < lvl"
    using assms(1,2) ordered_forward [of "pre @ r # post"] by auto
  then have "rangeLoop (pre @ r # post) lvl = rangeLoop (r # post) lvl"
    by (rule rangeLoop_skip)
  then show ?thesis using assms(3-5) by (simp add: Let_def)
qed

lemma default_table:
  "getTurnDuration lvl =
    (if lvl < 1 then 10
     else if lvl \<le> 10 then 10 - of_int (lvl - 1) * (2 / 9)
     else if lvl \<le> 15 then 8 - of_int (lvl - 10) * (2 / 5)
     else if lvl \<le> 20 then 6 - of_int (lvl - 15) * (2 / 5)
     else 4)"
  by (simp add: getTurnDuration_def getTurnDurationOf_def levelRanges_def)

text \<open>
  Claim C2, as the code has it. For ranges that run forward and follow one another, the
  turn duration is the piecewise-linear interpolation of the ranges: a level below the
  first range's start yields that range's start duration, a level above the last
  range's end yields the last range's end duration, and a level inside a range (the
  first one that reaches it) yields the start duration minus the level's offset times
  the range's slope. With the configured ranges level 1 yields 10 s and level 10 yields
  8 s; level 5 yields 82/9 s (about 9.11 s, a turn of 9111 ms), four steps of 2/9 s
  below 10 s.
\<close>

theorem getTurnDuration_piecewise:
  "(ranges \<noteq> [] \<and> lvl < lr_start (hd ranges) \<longrightarrow>
      getTurnDurationOf ranges lvl = startSec (hd ranges))
   \<and> (ranges \<noteq> [] \<and> orderedRanges ranges \<and> lr_end (last ranges) < lvl \<longrightarrow>
      getTurnDurationOf ranges lvl = endSec (last ranges))
   \<and> (orderedRanges ranges \<and> ranges = pre @ r # post \<and> (\<forall>p\<in>set pre. lr_end p < lvl)
       \<and> lr_start r \<le> lvl \<and> lvl \<le> lr_end r \<and> lr_start r < lr_end r \<longrightarrow>
      getTurnDurationOf ranges lvl =
        startSec r - of_int (lvl - lr_start r)
          * ((startSec r - endSec r) / of_int (lr_end r - lr_start r)))
   \<and> getTurnDuration 1 = 10 \<and> getTurnDuration 10 = 8 \<and> getTurnDuration 5 = 82 / 9
   \<and> mathRound (getTurnDuration 5 * 1000) = 9111"
proof -
  have a: "ranges \<noteq> [] \<and> lvl < lr_start (hd ranges) \<longrightarrow>
      getTurnDurationOf ranges lvl = startSec (hd ranges)"
    by (cases ranges) (simp_all add: getTurnDurationOf_def)
  have b: "ranges \<noteq> [] \<and> orderedRanges ranges \<and> lr_end (last ranges) < lvl \<longrightarrow>
      getTurnDurationOf ranges lvl = endSec (last ranges)"
    using rangeLoop_above [of ranges lvl] by (simp add: getTurnDurationOf_def)
  have c: "orderedRanges ranges \<and> ranges = pre @ r # post \<and> (\<forall>p\<in>set pre. lr_end p < lvl)
       \<and> lr_start r \<le> lvl \<and> lvl \<le> lr_end r \<and> lr_start r < lr_end r \<longrightarrow>
      getTurnDurationOf ranges lvl =
        startSec r - of_int (lvl - lr_start r)
          * ((startSec r - endSec r) / of_int (lr_end r - lr_start r))"
  proof (intro impI, elim conjE)
    assume h: "orderedRanges ranges" "ranges = pre @ r # post" "\<forall>p\<in>set pre. lr_end p < lvl"
      "lr_start r \<le> lvl" "lvl \<le> lr_end r" "lr_start r < lr_end r"
    have "rangeLoop ranges lvl =
      Some (startSec r - of_int (lvl - lr_start r)
          * ((startSec r - endSec r) / of_int (lr_end r - lr_start r)))"
      unfolding h(2) using h rangeLoop_within [of pre r post lvl] by blast
    then show "getTurnDurationOf ranges lvl =
        startSec r - of_int (lvl - lr_start r)
          * ((startSec r - endSec r) / of_int (lr_end r - lr_start r))"
      using h(2) by (simp add: getTurnDurationOf_def)
  qed
  have d: "getTurnDuration 1 = 10" "getTurnDuration 10 = 8" "getTurnDuration 5 = 82 / 9"
    by (simp_all add: default_table)
  have e: "mathRound (getTurnDuration 5 * 1000) = 9111"
    by (simp add: default_table mathRound_def floor_eq_iff)
  show ?thesis using a b c d e by blast
qed

theorem getTurnDuration_piecewise_witness:
  "getTurnDurationOf levelRanges 0 = 10 \<and> getTurnDurationOf levelRanges 25 = 4
   \<and> getTurnDurationOf levelRanges 12 = 36 / 5"
proof -
  let ?r1 = "\<lparr>lr_start = 1, lr_end = 10, startSec = 10, endSec = 8\<rparr>"
  let ?r2 = "\<lparr>lr_start = 10, lr_end = 15, startSec = 8, endSec = 6\<rparr>"
  let ?r3 = "\<lparr>lr_start = 15, lr_end = 20, startSec = 6, endSec = 4\<rparr>"
  have "getTurnDurationOf levelRanges 0 = 10"
    using getTurnDuration_piecewise [of levelRanges 0] by (simp add: levelRanges_def)
  moreover have "getTurnDurationOf levelRanges 25 = 4"
    using getTurnDuration_piecewise [of levelRanges 25] by (simp add: levelRanges_def)
  moreover have "getTurnDurationOf levelRanges 12 = 36 / 5"
    using getTurnDuration_piecewise [of levelRanges 12 "[?r1]" ?r2 "[?r3]"]
    by (simp add: levelRanges_def)
  ultimately show ?thesis by simp
qed

text \<open>
  The claim as stated fails at level 5: the turn does not last 9 s there.
\<close>

theorem getTurnDuration_level5_counterexample: "getTurnDuration 5 \<noteq> 9"
  by (simp add: default_table)

section \<open>The bot\<close>

lemma count_key_distinct:
  "distinct (map fst xs) \<Longrightarrow>
   length (filter (\<lambda>e. fst e = k) xs) = (if k \<in> set (map fst xs) then 1 else 0)"
  by (induction xs) (auto simp: rev_image_eqI)

lemma botInv_alt:
  "botInv r = (distinct (keysOf r) \<and>
     (botId r = None \<or> (\<exists>b. botId r = Some b \<and> b \<noteq> [] \<and> b \<in> set (keysOf r))))"
proof (cases "botId r")
  case None
  then show ?thesis by (simp add: botInv_def botEntries_def)
next
  case (Some b)
  have "botEntries r = filter (\<lambda>e. fst e = b) (players r)"
    using Some by (simp add: botEntries_def)
  moreover have "distinct (map fst (players r)) \<Longrightarrow>
      (length (filter (\<lambda>e. fst e = b) (players r)) = 1) = (b \<in> set (map fst (players r)))"
    by (simp add: count_key_distinct)
  ultimately show ?thesis using Some
    by (simp add: botInv_def keysOf_def del: set_map) blast
qed

lemma keys_update: "map fst (AList.update k v xs) = (if k \<in> fst ` set xs then map fst xs else map fst xs @ [k])"
  by (induction xs) auto

lemma keys_map_entry [simp]: "map fst (AList.map_entry k f xs) = map fst xs"
  by (induction xs) auto

lemma keys_delete: "map fst (AList.delete k xs) = removeAll k (map fst xs)"
  by (induction xs) auto

lemma showNat_nonempty: "showNat n \<noteq> []"
  by (subst showNat.simps) simp

lemma botInv_createRoom: "botInv (createRoom now)"
  by (simp add: botInv_def createRoom_def keysOf_def botEntries_def)

lemma botInv_addBot: "botInv r \<Longrightarrow> botInv (addBot now r)"
  by (auto simp: botInv_alt addBot_def keysOf_def Let_def dom_update distinct_update)

lemma botInv_removeBot: "botInv r \<Longrightarrow> botInv (removeBot r)"
  by (auto simp: botInv_alt removeBot_def keysOf_def keys_delete distinct_removeAll)

lemma addBot_idem: "truthyStr (botId r) \<Longrightarrow> addBot now r = r"
  by (simp add: addBot_def)

lemma addBot_twice: "addBot later (addBot now r) = addBot now r"
  by (simp add: addBot_def Let_def)

lemma humanOnline_hostId [simp]: "humanOnline (r\<lparr>hostId := h\<rparr>) = humanOnline r"
  by (simp add: humanOnline_def)

lemma botInv_hostId [simp]: "botInv (r\<lparr>hostId := h\<rparr>) = botInv r"
  by (simp add: botInv_def keysOf_def botEntries_def)

lemma botInv_touch [simp]: "botInv (touchRoom now r) = botInv r"
  by (simp add: botInv_def keysOf_def touchRoom_def botEntries_def)

lemma botInv_set_player:
  "botInv r \<Longrightarrow> botInv (r\<lparr>players := AList.update k v (players r)\<rparr>)"
  by (auto simp: botInv_alt keysOf_def dom_update distinct_update)

lemma botInv_join: "botInv r \<Longrightarrow> botInv (fst (handlePlayerJoin now sock nm ack r))"
  by (simp add: handlePlayerJoin_def Let_def botInv_removeBot botInv_set_player)

lemma botInv_roster: "roster r' = roster r \<Longrightarrow> botInv r' = botInv r"
  by (simp add: botInv_alt roster_def)

lemma keys_map_values [simp]: "map fst (map (\<lambda>(pid, p). (pid, f pid p)) xs) = map fst xs"
  by (induction xs) auto

lemma roster_touch [simp]: "roster (touchRoom now r) = roster r"
  by (simp add: roster_def keysOf_def touchRoom_def)

lemma roster_markDead [simp]: "roster (markDead s r) = roster r"
  by (simp add: roster_def keysOf_def markDead_def)

lemma roster_addScore [simp]: "roster (addScore s n r) = roster r"
  by (simp add: roster_def keysOf_def addScore_def)

lemma roster_fold_markDead [simp]: "roster (fold markDead xs r) = roster r"
  by (induction xs arbitrary: r) simp_all

lemma roster_voteOut [simp]: "roster (voteOut s r) = roster r"
proof -
  have "roster (voteOut s r) = roster (markDead s r)"
    by (simp add: voteOut_def Let_def roster_def keysOf_def split: option.splits)
  then show ?thesis by simp
qed

lemma roster_fold_voteOut [simp]: "roster (fold voteOut xs r) = roster r"
  by (induction xs arbitrary: r) simp_all

lemma roster_awardLoop [simp]: "roster (awardLoop elim subs r) = roster r"
  by (induction elim subs r rule: awardLoop.induct) (simp_all add: Let_def)

lemma roster_endRound [simp]: "roster (fst (endRound now w r)) = roster r"
proof -
  have "keysOf (fst (endRound now w r)) = keysOf (if truthyStr w \<and> mapHas (players r) (the w) then addScore (the w) 3 r else r)"
    by (simp add: endRound_def Let_def keysOf_def touchRoom_def split_beta)
  moreover have "botId (fst (endRound now w r)) = botId (if truthyStr w \<and> mapHas (players r) (the w) then addScore (the w) 3 r else r)"
    by (simp add: endRound_def Let_def touchRoom_def)
  ultimately show ?thesis
    by (simp add: roster_def keysOf_def addScore_def)
qed

lemma roster_startNewRound [simp]: "roster (fst (startNewRound now i bank r)) = roster r"
  by (simp add: startNewRound_def Let_def roster_def keysOf_def touchRoom_def split_beta)

lemma roster_startNextTurn [simp]: "roster (fst (startNextTurn now letters r)) = roster r"
  by (simp add: startNextTurn_def Let_def) (simp add: roster_def keysOf_def touchRoom_def)

lemma roster_finalizeTurn [simp]: "roster (fst (finalizeTurn now elim r)) = roster r"
proof -
  have "roster (fst (finalizeTurn now elim r)) =
    roster (if truthyNum (turnStartedAt r) \<and> truthyNum (currentTurnDuration r)
               then awardLoop elim (submissions r) r else r)"
    by (simp add: finalizeTurn_def gameLogic_TIMER_CONFIG_def Let_def roster_def keysOf_def touchRoom_def)
  then show ?thesis by simp
qed

lemma roster_endTurn [simp]: "roster (fst (endTurn now r)) = roster r"
proof -
  have b: "roster (r\<lparr>accepting := False\<rparr>) = roster r"
    by (simp add: roster_def keysOf_def)
  show ?thesis
    by (simp add: endTurn_def Let_def split_beta b)
qed

lemma roster_proceed [simp]: "roster (fst (proceedAfterPopup elim r)) = roster r"
proof -
  have "roster ((fold voteOut elim r)\<lparr>votes := []\<rparr>) = roster (fold voteOut elim r)"
    by (simp add: roster_def keysOf_def)
  then show ?thesis by (simp add: proceedAfterPopup_def Let_def)
qed

lemma roster_finalizeVote [simp]: "roster (fst (finalizeVote r)) = roster r"
proof -
  have a: "roster (r\<lparr>votingActive := False\<rparr>) = roster r"
    by (simp add: roster_def keysOf_def)
  show ?thesis
    by (simp add: finalizeVote_def Let_def split_beta a)
qed

lemma roster_gameOver [simp]: "roster (fst (gameOverCallback now r)) = roster r"
  by (simp add: gameOverCallback_def)

lemma roster_submit [simp]: "roster (fst (handleTurnSubmit now sock w r)) = roster r"
  by (simp add: handleTurnSubmit_def Let_def) (simp add: roster_def keysOf_def touchRoom_def)

lemma roster_vote [simp]: "roster (fst (handleTurnVote now sock t r)) = roster r"
proof -
  have a: "roster (r\<lparr>votes := v\<rparr>) = roster r" for v r
    by (simp add: roster_def keysOf_def)
  show ?thesis
    by (simp add: handleTurnVote_def Let_def a)
qed

lemma roster_menu [simp]: "roster (fst (handleGameMenu now sock r)) = roster r"
  by (simp add: handleGameMenu_def)

lemma botInv_start_fields:
  "botInv (r\<lparr>gameActive := g, level := l, punishedLetters := ps\<rparr>) = botInv r"
  by (rule botInv_roster) (simp add: roster_def keysOf_def)

lemma botInv_gameStart: "botInv r \<Longrightarrow> botInv (fst (handleGameStart now sock i bank r))"
proof -
  assume inv: "botInv r"
  have "botInv (fst (startNewRound now i bank (x\<lparr>gameActive := True, level := 0, punishedLetters := []\<rparr>))) = botInv x" for x
    using botInv_roster [OF roster_startNewRound] botInv_start_fields by simp
  then show ?thesis using inv
    by (simp add: handleGameStart_def Let_def botInv_addBot)
qed

lemma restart_is_start: "handleGameRestart = handleGameStart"
  by (intro ext) (simp add: handleGameRestart_def handleGameStart_def)

lemma botInv_disconnect:
  "botInv r \<Longrightarrow> fst (handleDisconnect now sock r) = Some r' \<Longrightarrow> botInv r'"
proof -
  assume inv: "botInv r" and res: "fst (handleDisconnect now sock r) = Some r'"
  let ?r1 = "r\<lparr>players := AList.map_entry sock (\<lambda>p. p\<lparr>online := False, alive := False\<rparr>) (players r)\<rparr>"
  have "roster ?r1 = roster r" by (simp add: roster_def keysOf_def)
  then have i1: "botInv ?r1" using inv botInv_roster by blast
  have i2: "botInv (?r1\<lparr>hostId := h\<rparr>)" for h using i1 by simp
  show ?thesis using res i1 i2
    by (auto simp: handleDisconnect_def Let_def botInv_addBot split: if_splits)
qed

lemma botEntries_keys: "botInv r \<Longrightarrow> botId r = Some b \<Longrightarrow> map fst (botEntries r) = [b]"
proof -
  assume inv: "botInv r" and b: "botId r = Some b"
  have "length (botEntries r) = 1" using inv b by (simp add: botInv_def)
  then obtain e where e: "botEntries r = [e]"
    by (cases "botEntries r") auto
  then have "e \<in> set (botEntries r)" by simp
  then have "fst e = b" using b by (simp add: botEntries_def)
  then show ?thesis using e by simp
qed

lemma length_delete_key:
  "distinct (map fst xs) \<Longrightarrow> k \<in> set (map fst xs) \<Longrightarrow>
   length (AList.delete k xs) + 1 = length xs"
  by (induction xs) auto

lemma removeBot_effect:
  assumes "botInv r" "botId r = Some b"
  shows "botId (removeBot r) = None" "players (removeBot r) = AList.delete b (players r)"
    "b \<notin> set (keysOf (removeBot r))" "length (players (removeBot r)) + 1 = length (players r)"
    "botEntries (removeBot r) = []"
proof -
  have ne: "b \<noteq> []" and mem: "b \<in> set (keysOf r)" and dist: "distinct (map fst (players r))"
    using assms by (auto simp: botInv_alt keysOf_def)
  show 1: "botId (removeBot r) = None" and 2: "players (removeBot r) = AList.delete b (players r)"
    using assms(2) ne by (simp_all add: removeBot_def)
  show "b \<notin> set (keysOf (removeBot r))"
    using 2 by (simp add: keysOf_def keys_delete)
  show "length (players (removeBot r)) + 1 = length (players r)"
    using 2 dist mem length_delete_key [of "players r" b] by (simp add: keysOf_def)
  show "botEntries (removeBot r) = []"
    using 1 by (simp add: botEntries_def)
qed

text \<open>
  Claim C10. A room holds at most one bot: the roster keys are distinct and the bot id is
  either unset, with no roster entry counted as the bot, or a non-empty key that exactly
  one roster entry carries. The empty room satisfies this and every handler and
  phase transition keeps it. \<^verbatim>\<open>addBot\<close> on a room that has a bot changes nothing, so
  a second call never adds a second bot, and \<^verbatim>\<open>removeBot\<close> deletes that one entry and
  unsets the bot id.
\<close>

theorem one_bot_per_room:
  "botInv (createRoom now)
   \<and> (botInv r \<longrightarrow>
        length (botEntries r) \<le> 1
      \<and> (botId r = None \<or> (\<exists>b. botId r = Some b \<and> map fst (botEntries r) = [b]))
      \<and> botInv (addBot now r) \<and> botInv (removeBot r)
      \<and> botInv (fst (handlePlayerJoin now sock nm ack r))
      \<and> botInv (fst (handleGameStart now sock i bank r))
      \<and> botInv (fst (handleGameRestart now sock i bank r))
      \<and> (\<forall>r'. fst (handleDisconnect now sock r) = Some r' \<longrightarrow> botInv r')
      \<and> botInv (fst (handleGameMenu now sock r))
      \<and> botInv (fst (handleTurnSubmit now sock word r))
      \<and> botInv (fst (handleTurnVote now sock target r))
      \<and> botInv (fst (startNextTurn now letters r))
      \<and> botInv (fst (endTurn now r))
      \<and> botInv (fst (finalizeTurn now elim r))
      \<and> botInv (fst (finalizeVote r))
      \<and> botInv (fst (proceedAfterPopup elim r))
      \<and> botInv (fst (gameOverCallback now r)))
   \<and> (truthyStr (botId r) \<longrightarrow> addBot now r = r)
   \<and> addBot later (addBot now r) = addBot now r
   \<and> (botInv r \<and> botId r = Some b \<longrightarrow>
        botId (removeBot r) = None
      \<and> players (removeBot r) = AList.delete b (players r)
      \<and> b \<notin> set (keysOf (removeBot r))
      \<and> length (players (removeBot r)) + 1 = length (players r)
      \<and> botEntries (removeBot r) = [])"
proof -
  have a: "botInv (createRoom now)" by (rule botInv_createRoom)
  have b: "length (botEntries r) \<le> 1
      \<and> (botId r = None \<or> (\<exists>b. botId r = Some b \<and> map fst (botEntries r) = [b]))" if "botInv r"
    using that botEntries_keys [OF that] by (cases "botId r") (simp_all add: botInv_def)
  have c: "botInv (addBot now r) \<and> botInv (removeBot r)
      \<and> botInv (fst (handlePlayerJoin now sock nm ack r))
      \<and> botInv (fst (handleGameStart now sock i bank r))
      \<and> botInv (fst (handleGameRestart now sock i bank r))
      \<and> (\<forall>r'. fst (handleDisconnect now sock r) = Some r' \<longrightarrow> botInv r')" if "botInv r"
    using that botInv_addBot botInv_removeBot botInv_join botInv_gameStart botInv_disconnect
    by (auto simp: restart_is_start)
  have d: "botInv (fst (handleGameMenu now sock r))
      \<and> botInv (fst (handleTurnSubmit now sock word r))
      \<and> botInv (fst (handleTurnVote now sock target r))
      \<and> botInv (fst (startNextTurn now letters r))
      \<and> botInv (fst (endTurn now r))
      \<and> botInv (fst (finalizeTurn now elim r))
      \<and> botInv (fst (finalizeVote r))
      \<and> botInv (fst (proceedAfterPopup elim r))
      \<and> botInv (fst (gameOverCallback now r))" if "botInv r"
    using that
      botInv_roster [OF roster_menu, of now sock r]
      botInv_roster [OF roster_submit, of now sock word r]
      botInv_roster [OF roster_vote, of now sock target r]
      botInv_roster [OF roster_startNextTurn, of now letters r]
      botInv_roster [OF roster_endTurn, of now r]
      botInv_roster [OF roster_finalizeTurn, of now elim r]
      botInv_roster [OF roster_finalizeVote, of r]
      botInv_roster [OF roster_proceed, of elim r]
      botInv_roster [OF roster_gameOver, of now r]
    by simp
  have e: "truthyStr (botId r) \<longrightarrow> addBot now r = r" by (simp add: addBot_idem)
  have f: "addBot later (addBot now r) = addBot now r" by (rule addBot_twice)
  have g: "botId (removeBot r) = None
      \<and> players (removeBot r) = AList.delete b (players r)
      \<and> b \<notin> set (keysOf (removeBot r))
      \<and> length (players (removeBot r)) + 1 = length (players r)
      \<and> botEntries (removeBot r) = []" if "botInv r" "botId r = Some b"
    using removeBot_effect [OF that] by simp
  have bcd: "botInv r \<longrightarrow>
        length (botEntries r) \<le> 1
      \<and> (botId r = None \<or> (\<exists>b. botId r = Some b \<and> map fst (botEntries r) = [b]))
      \<and> botInv (addBot now r) \<and> botInv (removeBot r)
      \<and> botInv (fst (handlePlayerJoin now sock nm ack r))
      \<and> botInv (fst (handleGameStart now sock i bank r))
      \<and> botInv (fst (handleGameRestart now sock i bank r))
      \<and> (\<forall>r'. fst (handleDisconnect now sock r) = Some r' \<longrightarrow> botInv r')
      \<and> botInv (fst (handleGameMenu now sock r))
      \<and> botInv (fst (handleTurnSubmit now sock word r))
      \<and> botInv (fst (handleTurnVote now sock target r))
      \<and> botInv (fst (startNextTurn now letters r))
      \<and> botInv (fst (endTurn now r))
      \<and> botInv (fst (finalizeTurn now elim r))
      \<and> botInv (fst (finalizeVote r))
      \<and> botInv (fst (proceedAfterPopup elim r))
      \<and> botInv (fst (gameOverCallback now r))"
  proof
    assume i: "botInv r"
    show "length (botEntries r) \<le> 1
      \<and> (botId r = None \<or> (\<exists>b. botId r = Some b \<and> map fst (botEntries r) = [b]))
      \<and> botInv (addBot now r) \<and> botInv (removeBot r)
      \<and> botInv (fst (handlePlayerJoin now sock nm ack r))
      \<and> botInv (fst (handleGameStart now sock i bank r))
      \<and> botInv (fst (handleGameRestart now sock i bank r))
      \<and> (\<forall>r'. fst (handleDisconnect now sock r) = Some r' \<longrightarrow> botInv r')
      \<and> botInv (fst (handleGameMenu now sock r))
      \<and> botInv (fst (handleTurnSubmit now sock word r))
      \<and> botInv (fst (handleTurnVote now sock target r))
      \<and> botInv (fst (startNextTurn now letters r))
      \<and> botInv (fst (endTurn now r))
      \<and> botInv (fst (finalizeTurn now elim r))
      \<and> botInv (fst (finalizeVote r))
      \<and> botInv (fst (proceedAfterPopup elim r))
      \<and> botInv (fst (gameOverCallback now r))"
      using b [OF i] c [OF i] d [OF i] by (intro conjI) (elim conjE, assumption)+
  qed
  have g': "botInv r \<and> botId r = Some b \<longrightarrow>
        botId (removeBot r) = None
      \<and> players (removeBot r) = AList.delete b (players r)
      \<and> b \<notin> set (keysOf (removeBot r))
      \<and> length (players (removeBot r)) + 1 = length (players r)
      \<and> botEntries (removeBot r) = []"
    using g by blast
  show ?thesis
    by (intro conjI) (rule a, rule bcd, rule e, rule f, rule g')
qed

theorem one_bot_per_room_witness:
  "botInv botLobby
   \<and> map fst (botEntries botLobby) = [''bot-2000'']
   \<and> addBot 3000 botLobby = botLobby
   \<and> botInv (addBot 3000 botLobby)
   \<and> botId (removeBot botLobby) = None
   \<and> keysOf (removeBot botLobby) = [''s1'']
   \<and> botInv (removeBot botLobby)
   \<and> botInv (fst (handlePlayerJoin 3000 ''s2'' (JStr ''Bob'') True botLobby))
   \<and> botId (fst (handlePlayerJoin 3000 ''s2'' (JStr ''Bob'') True botLobby)) = None
   \<and> botInv (the (fst (handleDisconnect 3000 ''s9'' botLobby)))"
proof -
  have inv: "botInv botLobby"
    by (simp add: botLobby_eq botInv_def keysOf_def botEntries_def createRoom_def)
  have bid: "botId botLobby = Some ''bot-2000''" "truthyStr (botId botLobby)"
    by (simp_all add: botLobby_eq createRoom_def)
  have dis: "fst (handleDisconnect 3000 ''s9'' botLobby) = Some botLobby"
    by (simp add: handleDisconnect_def botLobby_eq createRoom_def Let_def onlineCount_def
        botPlayer_def)
  note t = one_bot_per_room [of 3000 botLobby "''s2''" "JStr ''Bob''" True 0 "[]" JFalsy "''s1''" "[]" "[]"
      3000 "''bot-2000''"]
  note t9 = one_bot_per_room [of 3000 botLobby "''s9''" "JStr ''Bob''" True 0 "[]" JFalsy "''s1''" "[]" "[]"
      3000 "''bot-2000''"]
  have k: "keysOf (removeBot botLobby) = [''s1'']"
    using t inv bid by (simp add: keysOf_def botLobby_eq createRoom_def)
  have j: "botId (fst (handlePlayerJoin 3000 ''s2'' (JStr ''Bob'') True botLobby)) = None"
    by (simp add: handlePlayerJoin_def botLobby_eq createRoom_def Let_def humanOnline_def
        botPlayer_def removeBot_def touchRoom_def)
  have m: "map fst (botEntries botLobby) = [''bot-2000'']"
    using t inv bid by auto
  have d9: "botInv (the (fst (handleDisconnect 3000 ''s9'' botLobby)))"
    using t9 inv dis by simp
  show ?thesis using t inv bid k j m d9 by blast
qed

section \<open>Starting a game\<close>

text \<open>
  Claim C8. When the host sends start-game (or restart-game, which runs the same steps)
  to a room that is not active, a bot is injected first if fewer than two humans are
  online and the room has no bot yet, so that the room has a bot whenever fewer than
  two humans are online; if fewer than two players are online after that,
  the only effect is the generic lobby-creation error sent to the host, the same message
  as for a room that is already active, and the room stays inactive; otherwise the game
  is active with level 0 and no punished letter, and the first round is announced.
\<close>

theorem start_game_policy:
  assumes "hostId r = Some sock"
  shows "(gameActive r \<longrightarrow>
            handleGameStart now sock i bank r =
              (r, [Emit (ToSocket sock) (GameError LobbyCreationError)]))
       \<and> (\<not> gameActive r \<and> humanOnline r < 2 \<longrightarrow>
            truthyStr (botId (fst (handleGameStart now sock i bank r))))
       \<and> (\<not> gameActive r \<and> humanOnline r < 2 \<and> \<not> truthyStr (botId r) \<longrightarrow>
            botId (fst (handleGameStart now sock i bank r)) = Some (''bot-'' @ showInt now)
          \<and> map_of (players (addBot now r)) (''bot-'' @ showInt now) = Some botPlayer)
       \<and> (\<not> gameActive r
          \<and> onlineCount (if humanOnline r < 2 then addBot now r else r) < 2 \<longrightarrow>
            fst (handleGameStart now sock i bank r) =
              (if humanOnline r < 2 then addBot now r else r)
          \<and> snd (handleGameStart now sock i bank r) =
              [Emit (ToSocket sock) (GameError LobbyCreationError)]
          \<and> \<not> gameActive (fst (handleGameStart now sock i bank r)))
       \<and> (\<not> gameActive r
          \<and> 2 \<le> onlineCount (if humanOnline r < 2 then addBot now r else r) \<longrightarrow>
            gameActive (fst (handleGameStart now sock i bank r))
          \<and> level (fst (handleGameStart now sock i bank r)) = 0
          \<and> punishedLetters (fst (handleGameStart now sock i bank r)) = []
          \<and> round_no (fst (handleGameStart now sock i bank r)) = round_no r + 1
          \<and> snd (handleGameStart now sock i bank r) =
              [Emit ToRoom (RoundStart (round_no r + 1) (pickRandom (themes r) i)),
               Emit ToRoom LobbyUpdate, SetTimeout NextTurnT 600 CbStartNextTurn])
       \<and> handleGameRestart now sock i bank r = handleGameStart now sock i bank r"
proof -
  let ?r1 = "if humanOnline r < 2 then addBot now r else r"
  have ga: "gameActive ?r1 = gameActive r" by (simp add: addBot_def Let_def)
  have rn: "round_no ?r1 = round_no r" "themes ?r1 = themes r" by (simp_all add: addBot_def Let_def)
  have z: "gameActive r \<longrightarrow>
            handleGameStart now sock i bank r =
              (r, [Emit (ToSocket sock) (GameError LobbyCreationError)])"
    using assms by (simp add: handleGameStart_def)
  have y: "\<not> gameActive r \<and> humanOnline r < 2 \<longrightarrow>
            truthyStr (botId (fst (handleGameStart now sock i bank r)))"
  proof (intro impI, elim conjE)
    assume h: "\<not> gameActive r" "humanOnline r < 2"
    have "truthyStr (botId (addBot now r))"
      by (simp add: addBot_def Let_def)
    then show "truthyStr (botId (fst (handleGameStart now sock i bank r)))"
      using assms h
      by (simp add: handleGameStart_def Let_def startNewRound_def touchRoom_def)
  qed
  have a: "\<not> gameActive r \<and> humanOnline r < 2 \<and> \<not> truthyStr (botId r) \<longrightarrow>
            botId (fst (handleGameStart now sock i bank r)) = Some (''bot-'' @ showInt now)
          \<and> map_of (players (addBot now r)) (''bot-'' @ showInt now) = Some botPlayer"
    using assms
    by (simp add: handleGameStart_def Let_def startNewRound_def touchRoom_def addBot_def update_conv')
  have b: "\<not> gameActive r \<and> onlineCount ?r1 < 2 \<longrightarrow>
            fst (handleGameStart now sock i bank r) = ?r1
          \<and> snd (handleGameStart now sock i bank r) =
              [Emit (ToSocket sock) (GameError LobbyCreationError)]
          \<and> \<not> gameActive (fst (handleGameStart now sock i bank r))"
    using assms ga by (simp add: handleGameStart_def Let_def)
  have c: "\<not> gameActive r \<and> 2 \<le> onlineCount ?r1 \<longrightarrow>
            gameActive (fst (handleGameStart now sock i bank r))
          \<and> level (fst (handleGameStart now sock i bank r)) = 0
          \<and> punishedLetters (fst (handleGameStart now sock i bank r)) = []
          \<and> round_no (fst (handleGameStart now sock i bank r)) = round_no r + 1
          \<and> snd (handleGameStart now sock i bank r) =
              [Emit ToRoom (RoundStart (round_no r + 1) (pickRandom (themes r) i)),
               Emit ToRoom LobbyUpdate, SetTimeout NextTurnT 600 CbStartNextTurn]"
    using assms rn
    by (simp add: handleGameStart_def Let_def startNewRound_def touchRoom_def)
  have d: "handleGameRestart now sock i bank r = handleGameStart now sock i bank r"
    by (simp add: handleGameRestart_def handleGameStart_def)
  show ?thesis
    by (intro conjI) (rule z, rule y, rule a, rule b, rule c, rule d)
qed

theorem start_game_policy_witness:
  "botId (fst (handleGameStart 2000 ''s1'' 3 [''rouge''] soloLobby)) = Some ''bot-2000''
   \<and> gameActive (fst (handleGameStart 2000 ''s1'' 3 [''rouge''] soloLobby))
   \<and> level (fst (handleGameStart 2000 ''s1'' 3 [''rouge''] soloLobby)) = 0
   \<and> punishedLetters (fst (handleGameStart 2000 ''s1'' 3 [''rouge''] soloLobby)) = []
   \<and> snd (handleGameStart 2000 ''s1'' 3 [''rouge''] strandedLobby)
        = [Emit (ToSocket ''s1'') (GameError LobbyCreationError)]
   \<and> \<not> gameActive (fst (handleGameStart 2000 ''s1'' 3 [''rouge''] strandedLobby))
   \<and> handleGameRestart 2000 ''s1'' 3 [''rouge''] soloLobby
        = handleGameStart 2000 ''s1'' 3 [''rouge''] soloLobby
   \<and> handleGameStart 2000 ''s1'' 3 [''rouge''] (soloLobby\<lparr>gameActive := True\<rparr>)
        = (soloLobby\<lparr>gameActive := True\<rparr>,
           [Emit (ToSocket ''s1'') (GameError LobbyCreationError)])"
proof -
  have h1: "hostId soloLobby = Some ''s1''" "\<not> gameActive soloLobby"
    "humanOnline soloLobby < 2" "\<not> truthyStr (botId soloLobby)"
    "2 \<le> onlineCount (if humanOnline soloLobby < 2 then addBot 2000 soloLobby else soloLobby)"
    by (simp_all add: soloLobby_eq createRoom_def humanOnline_def onlineCount_def addBot_def
        Let_def botPlayer_def)
  have h2: "hostId strandedLobby = Some ''s1''" "\<not> gameActive strandedLobby"
    "onlineCount (if humanOnline strandedLobby < 2 then addBot 2000 strandedLobby else strandedLobby) < 2"
    by (simp_all add: strandedLobby_def createRoom_def humanOnline_def onlineCount_def addBot_def
        Let_def botPlayer_def)
  have h3: "hostId (soloLobby\<lparr>gameActive := True\<rparr>) = Some ''s1''"
    "gameActive (soloLobby\<lparr>gameActive := True\<rparr>)"
    using h1(1) by simp_all
  show ?thesis
    using start_game_policy [OF h1(1), of 2000 3 "[''rouge'']"]
      start_game_policy [OF h2(1), of 2000 3 "[''rouge'']"]
      start_game_policy [OF h3(1), of 2000 3 "[''rouge'']"] h1 h2 h3(2)
    unfolding showInt_2000 by blast
qed

section \<open>Submissions\<close>

text \<open>
  Claim C9. A submit-word payload that normalizes to the empty string (a falsy value, the
  empty string, a string of white space) leaves the room as it was and emits nothing:
  no acknowledgement and no error, while a word that one of the rejection rules
  refuses is answered by the error message.
\<close>

theorem empty_payload_silent:
  "(normalizeWord word = [] \<longrightarrow> handleTurnSubmit now sock word r = (r, []))
   \<and> normalizeWord JFalsy = []
   \<and> normalizeWord (JStr []) = []
   \<and> ((\<forall>c\<in>set s. isWhiteSpace c) \<longrightarrow> normalizeWord (JStr s) = [])"
proof -
  have "trim s = []" if "\<forall>c\<in>set s. isWhiteSpace c"
    using that by (auto simp: trim_def dest: set_dropWhileD)
  then have "(\<forall>c\<in>set s. isWhiteSpace c) \<longrightarrow> normalizeWord (JStr s) = []"
    by (simp add: normalizeString_def toLowerCase_def stripDiacritics_def)
  then show ?thesis by (simp add: handleTurnSubmit_def)
qed

theorem empty_payload_silent_witness:
  "handleTurnSubmit 7000 ''s1'' (JStr ''  '') openTurn = (openTurn, [])
   \<and> handleTurnSubmit 7000 ''s1'' JFalsy openTurn = (openTurn, [])
   \<and> normalizeWord (JStr ''  '') = []
   \<and> snd (handleTurnSubmit 7000 ''s1'' (JStr ''vert'') openTurn)
       = [Emit (ToSocket ''s1'') (TurnError InvalidWord)]"
proof -
  have ws: "\<forall>c\<in>set ''  ''. isWhiteSpace c" by (simp add: isWhiteSpace_def)
  have a: "normalizeWord (JStr ''  '') = []"
    using empty_payload_silent [of "JStr ''  ''" 7000 "''s1''" openTurn "''  ''"] ws by blast
  have b: "handleTurnSubmit 7000 ''s1'' (JStr ''  '') openTurn = (openTurn, [])"
    using empty_payload_silent [of "JStr ''  ''" 7000 "''s1''" openTurn "''  ''"] a by blast
  have c: "handleTurnSubmit 7000 ''s1'' JFalsy openTurn = (openTurn, [])"
    using empty_payload_silent [of JFalsy 7000 "''s1''" openTurn "''  ''"] by blast
  have nv: "normalizeString ''vert'' = ''vert''" by code_simp
  have d: "snd (handleTurnSubmit 7000 ''s1'' (JStr ''vert'') openTurn)
       = [Emit (ToSocket ''s1'') (TurnError InvalidWord)]"
    by (simp add: handleTurnSubmit_def openTurn_def createRoom_def isAlive_def Let_def nv)
  show ?thesis using a b c d by blast
qed


lemma map_of_update_other: "s \<noteq> k \<Longrightarrow> map_of (AList.update k v xs) s = map_of xs s"
  by (simp add: update_conv')

lemma count_le_one_distinct:
  "distinct (map fst xs) \<Longrightarrow> length (filter (\<lambda>e. fst e = k) xs) \<le> 1"
  by (simp add: count_key_distinct)

lemma update_fresh: "k \<notin> fst ` set xs \<Longrightarrow> AList.update k v xs = xs @ [(k, v)]"
  by (induction xs) auto

lemma update_present_keys: "k \<in> fst ` set xs \<Longrightarrow> map fst (AList.update k v xs) = map fst xs"
  by (induction xs) auto

lemma submit_refused:
  assumes "accepting r" "isAlive r sock" "normalizeWord word \<noteq> []"
    "refused r (normalizeWord word)"
  shows "handleTurnSubmit now sock word r = (r, [Emit (ToSocket sock) (TurnError InvalidWord)])"
  using assms by (simp add: handleTurnSubmit_def refused_def Let_def)

lemma submit_accepted_new:
  assumes "accepting r" "isAlive r sock" "normalizeWord word \<noteq> []"
    "\<not> refused r (normalizeWord word)" "\<not> mapHas (submissions r) sock"
  shows "handleTurnSubmit now sock word r =
    (r\<lparr>submissions := AList.update sock (normalizeWord word) (submissions r),
       submissionTimes := AList.update sock now (submissionTimes r),
       lastActivity := now\<rparr>,
     [Emit (ToSocket sock) (TurnAck (normalizeWord word)),
      Emit ToRoom (TurnProgress (Suc (length (submissions r))))])"
proof -
  have "sock \<notin> fst ` set (submissions r)"
    using assms(5) by (simp add: mapHas_def map_of_eq_None_iff)
  then have "length (AList.update sock (normalizeWord word) (submissions r)) = Suc (length (submissions r))"
    by (simp add: update_fresh)
  then show ?thesis using assms
    by (simp add: handleTurnSubmit_def refused_def Let_def touchRoom_def)
qed

lemma submit_repeat:
  assumes "accepting r" "isAlive r sock" "normalizeWord word \<noteq> []"
    "\<not> refused r (normalizeWord word)" "mapHas (submissions r) sock"
  shows "handleTurnSubmit now sock word r = (r, [])"
  using assms by (simp add: handleTurnSubmit_def refused_def Let_def)

lemma submit_keeps_entries:
  "map_of (submissions r) s = Some v \<Longrightarrow>
   map_of (submissions (fst (handleTurnSubmit now sock word r))) s = Some v"
  by (auto simp: handleTurnSubmit_def Let_def touchRoom_def update_conv' mapHas_def)

lemma submit_distinct:
  "distinct (map fst (submissions r)) \<Longrightarrow>
   distinct (map fst (submissions (fst (handleTurnSubmit now sock word r))))"
  by (simp add: handleTurnSubmit_def Let_def touchRoom_def distinct_update)

text \<open>
  Claim C7, as the code has it. While the turn accepts submissions, a word from an alive
  player whose normalized form is not empty is answered by the error message exactly
  when one of the three rules refuses it (already used; absent from a non-empty word
  set; containing a punished letter). Whichever rule refuses it, the handler's only
  effect is that one message to the sender, and the room is unchanged. A word that
  passes is recorded only if the sender has no submission yet; no handler call changes
  an entry that is already there, and no player ever has more than one entry.
\<close>

theorem submit_rules:
  assumes "accepting r" and "isAlive r sock" and "normalizeWord word \<noteq> []"
    and "distinct (map fst (submissions r))"
  shows "(Emit (ToSocket sock) (TurnError InvalidWord)
            \<in> set (snd (handleTurnSubmit now sock word r))
          \<longleftrightarrow> refused r (normalizeWord word))
     \<and> (refused r (normalizeWord word) \<longrightarrow>
          handleTurnSubmit now sock word r =
            (r, [Emit (ToSocket sock) (TurnError InvalidWord)]))
     \<and> (\<not> refused r (normalizeWord word) \<and> \<not> mapHas (submissions r) sock \<longrightarrow>
          map_of (submissions (fst (handleTurnSubmit now sock word r))) sock
            = Some (normalizeWord word)
        \<and> map_of (submissionTimes (fst (handleTurnSubmit now sock word r))) sock = Some now
        \<and> snd (handleTurnSubmit now sock word r) =
            [Emit (ToSocket sock) (TurnAck (normalizeWord word)),
             Emit ToRoom (TurnProgress (Suc (length (submissions r))))])
     \<and> (\<not> refused r (normalizeWord word) \<and> mapHas (submissions r) sock \<longrightarrow>
          handleTurnSubmit now sock word r = (r, []))
     \<and> (\<forall>s v. map_of (submissions r) s = Some v \<longrightarrow>
          map_of (submissions (fst (handleTurnSubmit now sock word r))) s = Some v)
     \<and> (\<forall>s. length (filter (\<lambda>e. fst e = s)
                  (submissions (fst (handleTurnSubmit now sock word r)))) \<le> 1)"
proof -
  let ?w = "normalizeWord word"
  let ?H = "handleTurnSubmit now sock word r"
  have acc: "fst ?H = r\<lparr>submissions := AList.update sock ?w (submissions r),
       submissionTimes := AList.update sock now (submissionTimes r),
       lastActivity := now\<rparr>"
    and eff: "snd ?H = [Emit (ToSocket sock) (TurnAck ?w),
      Emit ToRoom (TurnProgress (Suc (length (submissions r))))]"
    if "\<not> refused r ?w" "\<not> mapHas (submissions r) sock"
    using submit_accepted_new [OF assms(1-3) that, of now] by simp_all
  have a: "Emit (ToSocket sock) (TurnError InvalidWord) \<in> set (snd ?H) \<longleftrightarrow> refused r ?w"
  proof (cases "refused r ?w")
    case True
    then show ?thesis using submit_refused [OF assms(1-3)] by simp
  next
    case False
    then show ?thesis
      using eff [OF False] submit_repeat [OF assms(1-3) False, of now]
      by (cases "mapHas (submissions r) sock") simp_all
  qed
  have b: "refused r ?w \<longrightarrow> ?H = (r, [Emit (ToSocket sock) (TurnError InvalidWord)])"
    using submit_refused [OF assms(1-3)] by simp
  have c: "\<not> refused r ?w \<and> \<not> mapHas (submissions r) sock \<longrightarrow>
          map_of (submissions (fst ?H)) sock = Some ?w
        \<and> map_of (submissionTimes (fst ?H)) sock = Some now
        \<and> snd ?H = [Emit (ToSocket sock) (TurnAck ?w),
             Emit ToRoom (TurnProgress (Suc (length (submissions r))))]"
    using acc eff by (simp add: update_conv')
  have d: "\<not> refused r ?w \<and> mapHas (submissions r) sock \<longrightarrow> ?H = (r, [])"
    using submit_repeat [OF assms(1-3)] by simp
  have e: "\<forall>s v. map_of (submissions r) s = Some v \<longrightarrow> map_of (submissions (fst ?H)) s = Some v"
    using submit_keeps_entries by blast
  have f: "\<forall>s. length (filter (\<lambda>e. fst e = s) (submissions (fst ?H))) \<le> 1"
    by (intro allI, rule count_le_one_distinct, rule submit_distinct, rule assms(4))
  show ?thesis
    by (intro conjI) (rule a, rule b, rule c, rule d, rule e, rule f)
qed

lemma norm_Rouge: "normalizeWord (JStr ''Rouge '') = ''rouge''"
  by code_simp

lemma norm_lower:
  "normalizeWord (JStr ''vert'') = ''vert''" "normalizeWord (JStr ''jaune'') = ''jaune''"
  "normalizeWord (JStr ''bleu'') = ''bleu''"
  by code_simp+

theorem submit_rules_witness:
  "map_of (submissions (fst (handleTurnSubmit 7000 ''s1'' (JStr ''Rouge '') openTurn))) ''s1''
     = Some ''rouge''
   \<and> snd (handleTurnSubmit 7000 ''s1'' (JStr ''Rouge '') openTurn)
     = [Emit (ToSocket ''s1'') (TurnAck ''rouge''), Emit ToRoom (TurnProgress 1)]
   \<and> handleTurnSubmit 7000 ''s2'' (JStr ''vert'') openTurn
     = (openTurn, [Emit (ToSocket ''s2'') (TurnError InvalidWord)])
   \<and> handleTurnSubmit 7000 ''s2'' (JStr ''jaune'') openTurn
     = (openTurn, [Emit (ToSocket ''s2'') (TurnError InvalidWord)])
   \<and> handleTurnSubmit 7000 ''s2'' (JStr ''bleu'') punishedTurn
     = (punishedTurn, [Emit (ToSocket ''s2'') (TurnError InvalidWord)])
   \<and> handleTurnSubmit 8000 ''s1'' (JStr ''bleu'')
        (fst (handleTurnSubmit 7000 ''s1'' (JStr ''Rouge '') openTurn))
     = (fst (handleTurnSubmit 7000 ''s1'' (JStr ''Rouge '') openTurn), [])"
proof -
  have o: "accepting openTurn" "isAlive openTurn ''s1''" "isAlive openTurn ''s2''"
    "distinct (map fst (submissions openTurn))" "\<not> mapHas (submissions openTurn) ''s1''"
    "\<not> refused openTurn ''rouge''" "refused openTurn ''vert''" "refused openTurn ''jaune''"
    "length (submissions openTurn) = 0"
    by (simp_all add: openTurn_def createRoom_def isAlive_def mapHas_def refused_def)
  have p: "accepting punishedTurn" "isAlive punishedTurn ''s2''"
    "distinct (map fst (submissions punishedTurn))" "refused punishedTurn ''bleu''"
    by (simp_all add: punishedTurn_def openTurn_def createRoom_def isAlive_def mapHas_def refused_def)
  let ?r1 = "fst (handleTurnSubmit 7000 ''s1'' (JStr ''Rouge '') openTurn)"
  have n1: "normalizeWord (JStr ''Rouge '') \<noteq> []" "normalizeWord (JStr ''vert'') \<noteq> []"
    "normalizeWord (JStr ''jaune'') \<noteq> []" "normalizeWord (JStr ''bleu'') \<noteq> []"
    unfolding norm_Rouge norm_lower by simp_all
  note t1 = submit_rules [OF o(1,2) n1(1) o(4), of 7000, unfolded norm_Rouge]
  have a: "map_of (submissions ?r1) ''s1'' = Some ''rouge''"
    "snd (handleTurnSubmit 7000 ''s1'' (JStr ''Rouge '') openTurn)
     = [Emit (ToSocket ''s1'') (TurnAck ''rouge''), Emit ToRoom (TurnProgress 1)]"
    using t1 o(5,6,9) by simp_all
  have b: "handleTurnSubmit 7000 ''s2'' (JStr ''vert'') openTurn
     = (openTurn, [Emit (ToSocket ''s2'') (TurnError InvalidWord)])"
    using submit_rules [OF o(1,3) n1(2) o(4), of 7000, unfolded norm_lower] o(7) by blast
  have c: "handleTurnSubmit 7000 ''s2'' (JStr ''jaune'') openTurn
     = (openTurn, [Emit (ToSocket ''s2'') (TurnError InvalidWord)])"
    using submit_rules [OF o(1,3) n1(3) o(4), of 7000, unfolded norm_lower] o(8) by blast
  have d: "handleTurnSubmit 7000 ''s2'' (JStr ''bleu'') punishedTurn
     = (punishedTurn, [Emit (ToSocket ''s2'') (TurnError InvalidWord)])"
    using submit_rules [OF p(1,2) n1(4) p(3), of 7000, unfolded norm_lower] p(4) by blast
  have r1: "?r1 = openTurn\<lparr>submissions := [(''s1'', ''rouge'')],
       submissionTimes := [(''s1'', 7000)], lastActivity := 7000\<rparr>"
    using submit_accepted_new [OF o(1,2) n1(1) _ o(5), of 7000, unfolded norm_Rouge, OF o(6)]
    by (simp add: openTurn_def createRoom_def)
  have q: "accepting ?r1" "isAlive ?r1 ''s1''" "distinct (map fst (submissions ?r1))"
    "mapHas (submissions ?r1) ''s1''" "\<not> refused ?r1 ''bleu''"
    unfolding r1 by (simp_all add: openTurn_def createRoom_def isAlive_def mapHas_def refused_def)
  have e: "handleTurnSubmit 8000 ''s1'' (JStr ''bleu'') ?r1 = (?r1, [])"
    using submit_rules [OF q(1,2) n1(4) q(3), of 8000, unfolded norm_lower] q(4,5) by blast
  show ?thesis using a b c d e by blast
qed

text \<open>
  The claim as stated fails for a payload that normalizes to the empty string: it is
  absent from the non-empty word set, which is one of the three rules, yet the handler
  sends no error message and leaves the room as it was.
\<close>

theorem empty_word_counterexample:
  "accepting openTurn \<and> isAlive openTurn ''s1''
   \<and> wordSet openTurn \<noteq> []
   \<and> normalizeWord (JStr ''  '') \<notin> set (wordSet openTurn)
   \<and> handleTurnSubmit 7000 ''s1'' (JStr ''  '') openTurn = (openTurn, [])"
proof -
  have n: "normalizeWord (JStr ''  '') = []" by code_simp
  have "accepting openTurn \<and> isAlive openTurn ''s1'' \<and> wordSet openTurn \<noteq> []
    \<and> [] \<notin> set (wordSet openTurn)"
    by (simp add: openTurn_def createRoom_def isAlive_def)
  moreover have "handleTurnSubmit 7000 ''s1'' (JStr ''  '') openTurn = (openTurn, [])"
    using n by (simp add: handleTurnSubmit_def)
  ultimately show ?thesis using n by simp
qed

section \<open>Votes\<close>

lemma isAlive_markDead: "isAlive (markDead s r) t = (isAlive r t \<and> t \<noteq> s)"
  by (auto simp: isAlive_def markDead_def map_of_map_entry split: option.splits)

lemma markDead_fields [simp]:
  "submissions (markDead s r) = submissions r" "usedWords (markDead s r) = usedWords r"
  "votes (markDead s r) = votes r" "votingActive (markDead s r) = votingActive r"
  "level (markDead s r) = level r" "round_no (markDead s r) = round_no r"
  by (simp_all add: markDead_def)

lemma isAlive_voteOut: "isAlive (voteOut s r) t = (isAlive r t \<and> t \<noteq> s)"
proof -
  have "isAlive (voteOut s r) t = isAlive (markDead s r) t"
    by (simp add: voteOut_def Let_def isAlive_def split: option.splits)
  then show ?thesis by (simp add: isAlive_markDead)
qed

lemma voteOut_fields [simp]:
  "submissions (voteOut s r) = submissions r" "votes (voteOut s r) = votes r"
  "votingActive (voteOut s r) = votingActive r" "level (voteOut s r) = level r"
  "round_no (voteOut s r) = round_no r"
  by (simp_all add: voteOut_def Let_def split: option.splits)

lemma usedWords_voteOut:
  "usedWords (voteOut s r) =
    (case map_of (submissions r) s of
       None \<Rightarrow> usedWords r
     | Some w \<Rightarrow> if w = [] then usedWords r else removeAll w (usedWords r))"
  by (simp add: voteOut_def Let_def setDelete_def split: option.splits)


lemma set_setAdd [simp]: "set (setAdd x xs) = insert x (set xs)"
  by (auto simp: setAdd_def)

lemma voteLoop_set:
  "set (voteLoop r al vs out) =
     set out \<union> {t. \<exists>voters. (t, voters) \<in> set vs \<and> isAlive r t
                    \<and> majorityThreshold al t \<le> length voters}"
  by (induction r al vs out rule: voteLoop.induct) auto

lemma eliminatedByVote_iff:
  "t \<in> set (eliminatedByVote r) \<longleftrightarrow>
     (\<exists>voters. (t, voters) \<in> set (votes r) \<and> isAlive r t
        \<and> length (filter (\<lambda>s. s \<noteq> t) (aliveIds r)) div 2 + 1 \<le> length voters)"
  by (simp add: eliminatedByVote_def voteLoop_set majorityThreshold_def)

lemma isAlive_cong: "players r' = players r \<Longrightarrow> isAlive r' = isAlive r"
  by (intro ext) (simp add: isAlive_def)

lemma aliveIds_cong: "players r' = players r \<Longrightarrow> aliveIds r' = aliveIds r"
  by (simp add: aliveIds_def)

lemma eliminatedByVote_inactive [simp]:
  "eliminatedByVote (r\<lparr>votingActive := b\<rparr>) = eliminatedByVote r"
proof -
  have "voteLoop (r\<lparr>votingActive := b\<rparr>) al vs out = voteLoop r al vs out" for al vs out
    by (induction r al vs out rule: voteLoop.induct) (simp_all add: isAlive_def)
  then show ?thesis by (simp add: eliminatedByVote_def aliveIds_def)
qed

lemma resolveVote_room:
  "votingActive r \<Longrightarrow>
   fst (resolveVote r) = (fold voteOut (eliminatedByVote r) (r\<lparr>votingActive := False\<rparr>))\<lparr>votes := []\<rparr>"
  by (simp add: resolveVote_def Let_def proceedAfterPopup_def)


text \<open>
  How \<^verbatim>\<open>finalizeVote\<close> reaches the room of \<open>resolveVote\<close>: at once when nobody is voted
  out, and through the callback it arms for the popup delay otherwise.
\<close>

lemma elim_has_player: "t \<in> set (eliminatedByVote r) \<Longrightarrow> mapHas (players r) t"
  by (auto simp: eliminatedByVote_iff isAlive_def mapHas_def split: option.splits)

lemma finalizeVote_run:
  assumes "votingActive r"
  shows "eliminatedByVote r = [] \<Longrightarrow> fst (finalizeVote r) = fst (resolveVote r)"
    and "eliminatedByVote r \<noteq> [] \<Longrightarrow>
      fst (finalizeVote r) = r\<lparr>votingActive := False\<rparr>
      \<and> last (snd (finalizeVote r))
          = SetTimeout NewRoundT eliminationPopupMs (CbProceedAfterPopup (eliminatedByVote r))
      \<and> fst (proceedAfterPopup (eliminatedByVote r) (fst (finalizeVote r))) = fst (resolveVote r)"
proof -
  show "eliminatedByVote r = [] \<Longrightarrow> fst (finalizeVote r) = fst (resolveVote r)"
    using assms by (simp add: finalizeVote_def resolveVote_def Let_def split_beta)
  assume ne: "eliminatedByVote r \<noteq> []"
  have "filter (\<lambda>s. mapHas (players r) s) (eliminatedByVote r) = eliminatedByVote r"
    using elim_has_player by (simp add: filter_id_conv)
  then show "fst (finalizeVote r) = r\<lparr>votingActive := False\<rparr>
      \<and> last (snd (finalizeVote r))
          = SetTimeout NewRoundT eliminationPopupMs (CbProceedAfterPopup (eliminatedByVote r))
      \<and> fst (proceedAfterPopup (eliminatedByVote r) (fst (finalizeVote r))) = fst (resolveVote r)"
    using assms ne by (simp add: finalizeVote_def resolveVote_def Let_def)
qed

lemma ballots_after_update:
  "ballots (r\<lparr>votes := AList.update t vs (votes r)\<rparr>) t = vs"
  by (simp add: ballots_def update_conv')

lemma vote_cast:
  assumes "votingActive r" "isAlive r sock" "isAlive r target" "target \<noteq> sock"
    "mapHas (submissions r) target" "sock \<notin> set (ballots r target)"
  shows "handleTurnVote now sock target r =
    (let r2 = r\<lparr>votes := AList.update target (ballots r target @ [sock]) (votes r)\<rparr> in
     if majorityThreshold (aliveIds r) target \<le> length (ballots r target) + 1
     then (touchRoom now (voteOut target r2),
           [Emit ToRoom (VoteEliminated [target]), Emit ToRoom LobbyUpdate])
     else (touchRoom now r2, []))"
proof (cases "map_of (votes r) target")
  case None
  then show ?thesis using assms
    by (simp add: handleTurnVote_def Let_def mapHas_def ballots_def update_conv' aliveIds_def)
next
  case (Some vs)
  then show ?thesis using assms
    by (simp add: handleTurnVote_def Let_def mapHas_def ballots_def update_conv' aliveIds_def)
qed

lemma touch_fields [simp]:
  "players (touchRoom now r) = players r" "usedWords (touchRoom now r) = usedWords r"
  "votes (touchRoom now r) = votes r" "votingActive (touchRoom now r) = votingActive r"
  "submissions (touchRoom now r) = submissions r"
  by (simp_all add: touchRoom_def)

lemma isAlive_touch [simp]: "isAlive (touchRoom now r) = isAlive r"
  by (rule isAlive_cong) simp

lemma ballots_touch [simp]: "ballots (touchRoom now r) = ballots r"
  by (intro ext) (simp add: ballots_def)

lemma ballots_voteOut [simp]: "ballots (voteOut s r) = ballots r"
  by (intro ext) (simp add: ballots_def)

text \<open>
  Claim C4. A ballot that the handler accepts is counted at once. If the target's ballot
  count then reaches the majority threshold, the same handler call marks the target
  not alive, removes the target's submitted word from the used words (so that the word
  is no longer refused as already used) and broadcasts the disqualification, while the
  vote phase is still open; if the count stays below the threshold, the target stays
  alive and the used words are unchanged.
\<close>

theorem early_exit_on_majority:
  assumes "votingActive r" and "isAlive r sock" and "isAlive r target" and "target \<noteq> sock"
    and "map_of (submissions r) target = Some w" and "w \<noteq> []"
    and "sock \<notin> set (ballots r target)"
  shows "ballots (fst (handleTurnVote now sock target r)) target = ballots r target @ [sock]
     \<and> (majorityThreshold (aliveIds r) target \<le> length (ballots r target) + 1 \<longrightarrow>
          \<not> isAlive (fst (handleTurnVote now sock target r)) target
        \<and> w \<notin> set (usedWords (fst (handleTurnVote now sock target r)))
        \<and> usedWords (fst (handleTurnVote now sock target r)) = removeAll w (usedWords r)
        \<and> snd (handleTurnVote now sock target r)
            = [Emit ToRoom (VoteEliminated [target]), Emit ToRoom LobbyUpdate]
        \<and> votingActive (fst (handleTurnVote now sock target r)))
     \<and> (length (ballots r target) + 1 < majorityThreshold (aliveIds r) target \<longrightarrow>
          isAlive (fst (handleTurnVote now sock target r)) target
        \<and> usedWords (fst (handleTurnVote now sock target r)) = usedWords r
        \<and> snd (handleTurnVote now sock target r) = [])"
proof -
  let ?r2 = "r\<lparr>votes := AList.update target (ballots r target @ [sock]) (votes r)\<rparr>"
  have has: "mapHas (submissions r) target" using assms(5) by (simp add: mapHas_def)
  note H = vote_cast [OF assms(1-4) has assms(7), of now]
  have al: "isAlive ?r2 = isAlive r" by (rule isAlive_cong) simp
  have b2: "ballots ?r2 target = ballots r target @ [sock]" by (rule ballots_after_update)
  have a: "ballots (fst (handleTurnVote now sock target r)) target = ballots r target @ [sock]"
    using H b2 by (simp add: Let_def)
  have b: "majorityThreshold (aliveIds r) target \<le> length (ballots r target) + 1 \<longrightarrow>
          \<not> isAlive (fst (handleTurnVote now sock target r)) target
        \<and> w \<notin> set (usedWords (fst (handleTurnVote now sock target r)))
        \<and> usedWords (fst (handleTurnVote now sock target r)) = removeAll w (usedWords r)
        \<and> snd (handleTurnVote now sock target r)
            = [Emit ToRoom (VoteEliminated [target]), Emit ToRoom LobbyUpdate]
        \<and> votingActive (fst (handleTurnVote now sock target r))"
    using H assms(1,5,6) by (simp add: Let_def isAlive_voteOut usedWords_voteOut)
  have c: "length (ballots r target) + 1 < majorityThreshold (aliveIds r) target \<longrightarrow>
          isAlive (fst (handleTurnVote now sock target r)) target
        \<and> usedWords (fst (handleTurnVote now sock target r)) = usedWords r
        \<and> snd (handleTurnVote now sock target r) = []"
    using H assms(3) al by (simp add: Let_def)
  show ?thesis by (intro conjI) (rule a, rule b, rule c)
qed

theorem early_exit_on_majority_witness:
  "majorityThreshold (aliveIds threeVoting) ''s3'' = 2
   \<and> isAlive (fst (handleTurnVote 16000 ''s1'' ''s3'' threeVoting)) ''s3''
   \<and> \<not> isAlive (fst (handleTurnVote 16500 ''s2'' ''s3''
                       (fst (handleTurnVote 16000 ''s1'' ''s3'' threeVoting)))) ''s3''
   \<and> usedWords (fst (handleTurnVote 16500 ''s2'' ''s3''
                       (fst (handleTurnVote 16000 ''s1'' ''s3'' threeVoting))))
       = [''vert'', ''rouge'', ''bleu'']
   \<and> snd (handleTurnVote 16500 ''s2'' ''s3''
                       (fst (handleTurnVote 16000 ''s1'' ''s3'' threeVoting)))
       = [Emit ToRoom (VoteEliminated [''s3'']), Emit ToRoom LobbyUpdate]"
proof -
  let ?r1 = "fst (handleTurnVote 16000 ''s1'' ''s3'' threeVoting)"
  have v: "votingActive threeVoting" "isAlive threeVoting ''s1''" "isAlive threeVoting ''s3''"
    "''s3'' \<noteq> ''s1''" "map_of (submissions threeVoting) ''s3'' = Some ''noir''" "''noir'' \<noteq> []"
    "''s1'' \<notin> set (ballots threeVoting ''s3'')"
    by (simp_all add: threeVoting_def openTurn_def createRoom_def isAlive_def ballots_def)
  have th: "majorityThreshold (aliveIds threeVoting) ''s3'' = 2"
    "length (ballots threeVoting ''s3'') = 0"
    "usedWords threeVoting = [''vert'', ''rouge'', ''bleu'', ''noir'']"
    by (simp_all add: threeVoting_def openTurn_def createRoom_def majorityThreshold_def
        aliveIds_def ballots_def)
  note t1 = early_exit_on_majority [OF v, of 16000]
  have r1: "?r1 = touchRoom 16000 (threeVoting\<lparr>votes := AList.update ''s3'' [''s1''] (votes threeVoting)\<rparr>)"
    using vote_cast [OF v(1-4) _ v(7), of 16000] v(5) th
    by (simp add: mapHas_def Let_def ballots_def)
  have v1: "votingActive ?r1" "isAlive ?r1 ''s2''" "isAlive ?r1 ''s3''"
    "''s3'' \<noteq> ''s2''" "map_of (submissions ?r1) ''s3'' = Some ''noir''"
    "''s2'' \<notin> set (ballots ?r1 ''s3'')"
    unfolding r1
    by (simp_all add: threeVoting_def openTurn_def createRoom_def isAlive_def ballots_def touchRoom_def)
  have th1: "majorityThreshold (aliveIds ?r1) ''s3'' = 2" "length (ballots ?r1 ''s3'') = 1"
    "usedWords ?r1 = [''vert'', ''rouge'', ''bleu'', ''noir'']"
    unfolding r1
    by (simp_all add: threeVoting_def openTurn_def createRoom_def majorityThreshold_def
        aliveIds_def ballots_def touchRoom_def)
  note t2 = early_exit_on_majority [OF v1(1-5) v(6) v1(6), of 16500]
  have a: "isAlive ?r1 ''s3''" using t1 th by simp
  have b: "\<not> isAlive (fst (handleTurnVote 16500 ''s2'' ''s3'' ?r1)) ''s3''"
    "usedWords (fst (handleTurnVote 16500 ''s2'' ''s3'' ?r1)) = [''vert'', ''rouge'', ''bleu'']"
    "snd (handleTurnVote 16500 ''s2'' ''s3'' ?r1)
       = [Emit ToRoom (VoteEliminated [''s3'']), Emit ToRoom LobbyUpdate]"
    using t2 th1 by simp_all
  show ?thesis using th(1) a b by blast
qed

lemma fiveVoting_alive: "aliveIds fiveVoting = [''s1'', ''s2'', ''s3'', ''s4'', ''s5'']"
  by code_simp

lemma fiveVoting_after_endTurn:
  "players fiveVoting = players (fst (endTurn 15000 fiveTurn))"
  "usedWords fiveVoting = usedWords (fst (endTurn 15000 fiveTurn))"
  "submissions fiveVoting = submissions (fst (endTurn 15000 fiveTurn))"
  "accepting fiveVoting = accepting (fst (endTurn 15000 fiveTurn))"
  "votes fiveVoting = fold (\<lambda>(s, w) vs. AList.update s [] vs) (submissions fiveVoting) []"
  "snd (snd (endTurn 15000 fiveTurn)) = Some TypeError"
  "\<not> votingActive (fst (endTurn 15000 fiveTurn))"
  by code_simp+

lemma fiveVoted_facts:
  "ballots fiveVoted ''s4'' = [''s1'', ''s2'']"
  "aliveIds fiveVoted = [''s1'', ''s2'', ''s3'', ''s4'']"
  "votingActive fiveVoted"
  "''s4'' \<in> set (eliminatedByVote fiveVoted)"
  "\<not> isAlive (fst (resolveVote fiveVoted)) ''s4''"
  by code_simp+






section \<open>The winner at game over\<close>

lemma bestLoop_no_better:
  "\<forall>e\<in>set xs. score (snd e) \<le> m \<Longrightarrow> bestLoop xs b (Some m) = b"
  by (induction xs) auto

lemma bestLoop_first_max:
  "\<forall>e\<in>set pre. score (snd e) < score p \<Longrightarrow> \<forall>e\<in>set post. score (snd e) \<le> score p \<Longrightarrow>
   (case m of None \<Rightarrow> True | Some m' \<Rightarrow> m' < score p) \<Longrightarrow>
   bestLoop (pre @ (w, p) # post) b m = Some w"
proof (induction pre arbitrary: b m)
  case Nil
  then show ?case by (simp add: bestLoop_no_better split: option.splits)
next
  case (Cons e pre)
  obtain k q where e: "e = (k, q)" by (cases e)
  have lt: "score q < score p" using Cons.prems(1) e by simp
  have pre: "\<forall>e\<in>set pre. score (snd e) < score p" using Cons.prems(1) by simp
  show ?case
  proof (cases "case m of None \<Rightarrow> True | Some m' \<Rightarrow> score q > m'")
    case True
    then show ?thesis
      using Cons.IH [OF pre Cons.prems(2), of "Some (score q)" "Some k"] lt e by simp
  next
    case False
    then show ?thesis
      using Cons.IH [OF pre Cons.prems(2) Cons.prems(3), of b] e by simp
  qed
qed

lemma first_max_exists:
  "xs \<noteq> [] \<Longrightarrow>
   \<exists>pre w p post. xs = pre @ (w, p) # post
     \<and> (\<forall>e\<in>set pre. score (snd e) < score (p::player))
     \<and> (\<forall>e\<in>set post. score (snd e) \<le> score p)"
proof (induction xs)
  case Nil
  then show ?case by simp
next
  case (Cons x xs)
  obtain k q where x: "x = (k, q)" by (cases x)
  show ?case
  proof (cases "xs = []")
    case True
    then have "x # xs = [] @ (k, q) # []" using x by simp
    then show ?thesis by fastforce
  next
    case False
    then obtain pre w p post where d: "xs = pre @ (w, p) # post"
      "\<forall>e\<in>set pre. score (snd e) < score p" "\<forall>e\<in>set post. score (snd e) \<le> score p"
      using Cons.IH by blast
    show ?thesis
    proof (cases "score p \<le> score q")
      case True
      have "\<forall>e\<in>set xs. score (snd e) \<le> score q"
        using d True by auto
      moreover have "x # xs = [] @ (k, q) # xs" using x by simp
      ultimately show ?thesis by (metis empty_iff list.set(1))
    next
      case False
      have "x # xs = (x # pre) @ (w, p) # post" using d(1) by simp
      moreover have "\<forall>e\<in>set (x # pre). score (snd e) < score p"
        using d(2) False x by simp
      ultimately show ?thesis using d(3) by blast
    qed
  qed
qed

lemma bestLoop_scores_only:
  "map (\<lambda>e. (fst e, score (snd e))) xs = map (\<lambda>e. (fst e, score (snd e))) ys \<Longrightarrow>
   bestLoop xs b m = bestLoop ys b m"
proof (induction xs arbitrary: ys b m)
  case Nil
  then show ?case by simp
next
  case (Cons x xs)
  then obtain y ys' where ys: "ys = y # ys'" by (cases ys) auto
  obtain k q where x: "x = (k, q)" by (cases x)
  obtain k' q' where y: "y = (k', q')" by (cases y)
  have eq: "k = k'" "score q = score q'"
    and tl: "map (\<lambda>e. (fst e, score (snd e))) xs = map (\<lambda>e. (fst e, score (snd e))) ys'"
    using Cons.prems ys x y by simp_all
  show ?case using Cons.IH [OF tl] ys x y eq by (cases m) simp_all
qed

lemma scores_map_entry_alive:
  "map (\<lambda>e. (fst e, score (snd e))) (AList.map_entry k (\<lambda>p. p\<lparr>alive := a\<rparr>) xs)
   = map (\<lambda>e. (fst e, score (snd e))) xs"
  by (induction xs) auto

lemma pickWinner_markDead [simp]: "pickWinner (markDead s r) = pickWinner r"
  unfolding pickWinner_def markDead_def
  by (rule bestLoop_scores_only) (simp add: scores_map_entry_alive)

lemma pickWinner_voteOut [simp]: "pickWinner (voteOut s r) = pickWinner r"
proof -
  have "pickWinner (voteOut s r) = pickWinner (markDead s r)"
    by (simp add: voteOut_def Let_def pickWinner_def split: option.splits)
  then show ?thesis by simp
qed

lemma pickWinner_fold_voteOut [simp]: "pickWinner (fold voteOut xs r) = pickWinner r"
  by (induction xs arbitrary: r) simp_all

lemma pickWinner_resolveVote: "pickWinner (fst (resolveVote r)) = pickWinner r"
proof (cases "votingActive r")
  case True
  have "pickWinner (fst (resolveVote r)) = pickWinner (fold voteOut (eliminatedByVote r) (r\<lparr>votingActive := False\<rparr>))"
    using resolveVote_room [OF True] by (simp add: pickWinner_def)
  then show ?thesis by (simp, simp add: pickWinner_def)
next
  case False
  then show ?thesis by (simp add: resolveVote_def)
qed

lemma pickWinner_decomposed:
  assumes "players r = pre @ (w, p) # post" "\<forall>e\<in>set pre. score (snd e) < score p"
    "\<forall>e\<in>set post. score (snd e) \<le> score p"
  shows "pickWinner r = Some w"
  unfolding pickWinner_def assms(1) using bestLoop_first_max [OF assms(2,3), of None w None] by simp

lemma pickWinner_in_roster: "pickWinner r = Some w \<Longrightarrow> mapHas (players r) w"
proof -
  assume pw: "pickWinner r = Some w"
  then have "players r \<noteq> []" by (auto simp: pickWinner_def)
  then obtain pre w' p post where d: "players r = pre @ (w', p) # post"
      "\<forall>e\<in>set pre. score (snd e) < score p" "\<forall>e\<in>set post. score (snd e) \<le> score p"
    using first_max_exists by blast
  then have "pickWinner r = Some w'" by (rule pickWinner_decomposed)
  then have "w = w'" using pw by simp
  then have "w \<in> fst ` set (players r)" using d(1) by force
  then show ?thesis by (simp add: mapHas_def map_of_eq_None_iff)
qed

text \<open>
  The callback that vote resolution arms at game over, on every room: the winner it
  hands to \<^verbatim>\<open>endRound\<close> is the player with the strictly highest score, the first of them
  in roster order when several share it, whether that player is alive or not and
  whether or not exactly one survivor is left; it is none only when the roster is
  empty. The eliminations by vote do not change it.
\<close>

lemma gameOver_top_scorer:
  "endOfGame r = (20 \<le> level r \<or> length (aliveIds r) \<le> 1)
   \<and> (votingActive r \<longrightarrow>
        snd (resolveVote r)
          = (if endOfGame (fst (resolveVote r)) then Some (pickWinner r) else None))
   \<and> gameOverCallback now r = endRound now (pickWinner r) r
   \<and> (players r = [] \<longrightarrow> pickWinner r = None)
   \<and> (players r = pre @ (w, p) # post \<and> (\<forall>e\<in>set pre. score (snd e) < score p)
        \<and> (\<forall>e\<in>set post. score (snd e) \<le> score p) \<longrightarrow>
        pickWinner r = Some w)
   \<and> (players r \<noteq> [] \<longrightarrow>
        (\<exists>pre' w' p' post'. players r = pre' @ (w', p') # post'
           \<and> (\<forall>e\<in>set pre'. score (snd e) < score p')
           \<and> (\<forall>e\<in>set post'. score (snd e) \<le> score p')
           \<and> pickWinner r = Some w'))
   \<and> (pickWinner r = Some v \<and> v \<noteq> [] \<longrightarrow>
        hd (snd (gameOverCallback now r)) = Emit ToRoom (RoundEnd (Some v) (round_no r)))"
proof -
  have a: "endOfGame r = (20 \<le> level r \<or> length (aliveIds r) \<le> 1)"
    by (simp add: endOfGame_def)
  have b: "votingActive r \<longrightarrow>
        snd (resolveVote r)
          = (if endOfGame (fst (resolveVote r)) then Some (pickWinner r) else None)"
  proof
    assume va: "votingActive r"
    have "snd (resolveVote r)
      = (if endOfGame (fst (resolveVote r)) then Some (pickWinner (fst (resolveVote r))) else None)"
      using va by (simp add: resolveVote_def Let_def)
    then show "snd (resolveVote r)
          = (if endOfGame (fst (resolveVote r)) then Some (pickWinner r) else None)"
      by (simp add: pickWinner_resolveVote)
  qed
  have c: "gameOverCallback now r = endRound now (pickWinner r) r"
    by (simp add: gameOverCallback_def)
  have d: "players r = [] \<longrightarrow> pickWinner r = None"
    by (simp add: pickWinner_def)
  have e: "players r = pre @ (w, p) # post \<and> (\<forall>e\<in>set pre. score (snd e) < score p)
        \<and> (\<forall>e\<in>set post. score (snd e) \<le> score p) \<longrightarrow>
        pickWinner r = Some w"
    using pickWinner_decomposed by blast
  have f: "players r \<noteq> [] \<longrightarrow>
        (\<exists>pre' w' p' post'. players r = pre' @ (w', p') # post'
           \<and> (\<forall>e\<in>set pre'. score (snd e) < score p')
           \<and> (\<forall>e\<in>set post'. score (snd e) \<le> score p')
           \<and> pickWinner r = Some w')"
  proof
    assume "players r \<noteq> []"
    then obtain pre' w' p' post' where d: "players r = pre' @ (w', p') # post'"
      "\<forall>e\<in>set pre'. score (snd e) < score p'" "\<forall>e\<in>set post'. score (snd e) \<le> score p'"
      using first_max_exists by blast
    then have "pickWinner r = Some w'" by (rule pickWinner_decomposed)
    then show "\<exists>pre' w' p' post'. players r = pre' @ (w', p') # post'
           \<and> (\<forall>e\<in>set pre'. score (snd e) < score p')
           \<and> (\<forall>e\<in>set post'. score (snd e) \<le> score p')
           \<and> pickWinner r = Some w'"
      using d by blast
  qed
  have g: "pickWinner r = Some v \<and> v \<noteq> [] \<longrightarrow>
        hd (snd (gameOverCallback now r)) = Emit ToRoom (RoundEnd (Some v) (round_no r))"
    using pickWinner_in_roster [of r v]
    by (auto simp: gameOverCallback_def endRound_def Let_def)
  show ?thesis by (intro conjI) (rule a, rule b, rule c, rule d, rule e, rule f, rule g)
qed

lemma duelVoting_after_endTurn:
  "players duelVoting = players (fst (endTurn 15000 duelTurn))"
  "usedWords duelVoting = usedWords (fst (endTurn 15000 duelTurn))"
  "submissions duelVoting = submissions (fst (endTurn 15000 duelTurn))"
  "votes duelVoting = fold (\<lambda>(s, w) vs. AList.update s [] vs) (submissions duelVoting) []"
  by code_simp+


section \<open>Turn resolution\<close>

lemma buildFreq_spec:
  "distinct (map fst freq) \<Longrightarrow>
   distinct (map fst (buildFreq subs freq))
   \<and> (\<forall>w. map_of (buildFreq subs freq) w =
        (let new = map fst (filter (\<lambda>e. snd e = w) subs) in
         case map_of freq w of
           None \<Rightarrow> if new = [] then None else Some new
         | Some ids \<Rightarrow> Some (ids @ new)))"
proof (induction subs freq rule: buildFreq.induct)
  case (1 freq)
  then show ?case by (simp split: option.splits)
next
  case (2 s word rest freq)
  let ?f = "AList.update word ((case map_of freq word of None \<Rightarrow> [] | Some ids \<Rightarrow> ids) @ [s]) freq"
  have d: "distinct (map fst ?f)" using "2.prems" by (simp add: distinct_update)
  note ih = "2.IH" [OF d]
  show ?case
  proof (intro conjI allI)
    show "distinct (map fst (buildFreq ((s, word) # rest) freq))" using ih by simp
  next
    fix w
    show "map_of (buildFreq ((s, word) # rest) freq) w =
        (let new = map fst (filter (\<lambda>e. snd e = w) ((s, word) # rest)) in
         case map_of freq w of
           None \<Rightarrow> if new = [] then None else Some new
         | Some ids \<Rightarrow> Some (ids @ new))"
      using ih by (auto simp: Let_def update_conv' split: option.splits)
  qed
qed

lemma freq_entries:
  "(w, ids) \<in> set (buildFreq subs []) \<longleftrightarrow>
     ids = map fst (filter (\<lambda>e. snd e = w) subs) \<and> ids \<noteq> []"
proof -
  have s: "distinct (map fst (buildFreq subs []))"
    and m: "map_of (buildFreq subs []) w =
      (if map fst (filter (\<lambda>e. snd e = w) subs) = [] then None
       else Some (map fst (filter (\<lambda>e. snd e = w) subs)))"
    using buildFreq_spec [of "[]" subs] by (simp_all add: Let_def)
  have "(w, ids) \<in> set (buildFreq subs []) \<longleftrightarrow> map_of (buildFreq subs []) w = Some ids"
    using s by simp
  then show ?thesis using m by auto
qed

lemma duplicateIds_set:
  "set (duplicateIds r) = {s. \<exists>w. s \<in> set (submittersOf r w) \<and> 2 \<le> length (submittersOf r w)}"
proof -
  have "set (duplicateIds r) =
    (\<Union>e \<in> {e \<in> set (buildFreq (submissions r) []). 2 \<le> length (snd e)}. set (snd e))"
    by (auto simp: duplicateIds_def)
  also have "\<dots> = {s. \<exists>w. s \<in> set (submittersOf r w) \<and> 2 \<le> length (submittersOf r w)}"
  proof (intro set_eqI iffI)
    fix s
    assume "s \<in> (\<Union>e \<in> {e \<in> set (buildFreq (submissions r) []). 2 \<le> length (snd e)}. set (snd e))"
    then obtain w ids where e: "(w, ids) \<in> set (buildFreq (submissions r) [])"
      "2 \<le> length ids" "s \<in> set ids" by auto
    then have "ids = submittersOf r w" using freq_entries by (simp add: submittersOf_def)
    then show "s \<in> {s. \<exists>w. s \<in> set (submittersOf r w) \<and> 2 \<le> length (submittersOf r w)}"
      using e by blast
  next
    fix s
    assume "s \<in> {s. \<exists>w. s \<in> set (submittersOf r w) \<and> 2 \<le> length (submittersOf r w)}"
    then obtain w where w: "s \<in> set (submittersOf r w)" "2 \<le> length (submittersOf r w)" by blast
    then have "submittersOf r w \<noteq> []" by auto
    then have "(w, submittersOf r w) \<in> set (buildFreq (submissions r) [])"
      using freq_entries [of w "submittersOf r w" "submissions r"] by (simp add: submittersOf_def)
    then show "s \<in> (\<Union>e \<in> {e \<in> set (buildFreq (submissions r) []). 2 \<le> length (snd e)}. set (snd e))"
      using w by force
  qed
  finally show ?thesis .
qed

lemma set_fold_setAdd: "set (fold setAdd xs acc) = set acc \<union> set xs"
  by (induction xs arbitrary: acc) auto

lemma keys_filter_set:
  "distinct (map fst xs) \<Longrightarrow>
   set (map fst (filter (\<lambda>(k, v). P k v) xs)) = {k. \<exists>v. map_of xs k = Some v \<and> P k v}"
  by (force simp: image_iff)

lemma noSubmissionIds_set:
  "distinct (map fst (players r)) \<Longrightarrow>
   set (noSubmissionIds r) = {s. isAlive r s \<and> \<not> mapHas (submissions r) s}"
proof -
  assume d: "distinct (map fst (players r))"
  have "set (noSubmissionIds r)
      = {k. \<exists>p. map_of (players r) k = Some p \<and> alive p \<and> \<not> mapHas (submissions r) k}"
    unfolding noSubmissionIds_def by (rule keys_filter_set [OF d])
  also have "\<dots> = {s. isAlive r s \<and> \<not> mapHas (submissions r) s}"
    by (auto simp: isAlive_def split: option.splits)
  finally show ?thesis .
qed

lemma eliminatedOf_set:
  "distinct (map fst (players r)) \<Longrightarrow>
   set (eliminatedOf r) =
     {s. isAlive r s \<and> \<not> mapHas (submissions r) s}
     \<union> {s. \<exists>w. s \<in> set (submittersOf r w) \<and> 2 \<le> length (submittersOf r w)}"
  by (simp add: eliminatedOf_def set_fold_setAdd noSubmissionIds_set duplicateIds_set)

lemma eliminatedOf_accepting [simp]: "eliminatedOf (r\<lparr>accepting := b\<rparr>) = eliminatedOf r"
  by (simp add: eliminatedOf_def noSubmissionIds_def duplicateIds_def)

lemma isAlive_fold_markDead: "isAlive (fold markDead xs r) t = (isAlive r t \<and> t \<notin> set xs)"
  by (induction xs arbitrary: r) (auto simp: isAlive_markDead)

lemma fold_markDead_fields [simp]:
  "submissions (fold markDead xs r) = submissions r" "usedWords (fold markDead xs r) = usedWords r"
  "submissionTimes (fold markDead xs r) = submissionTimes r"
  "turnStartedAt (fold markDead xs r) = turnStartedAt r"
  "currentTurnDuration (fold markDead xs r) = currentTurnDuration r"
  by (induction xs arbitrary: r) (simp_all add: markDead_def)

lemma addScore_fields [simp]:
  "submissions (addScore s n r) = submissions r" "usedWords (addScore s n r) = usedWords r"
  "submissionTimes (addScore s n r) = submissionTimes r"
  "turnStartedAt (addScore s n r) = turnStartedAt r"
  "currentTurnDuration (addScore s n r) = currentTurnDuration r"
  by (simp_all add: addScore_def)

lemma isAlive_addScore [simp]: "isAlive (addScore s n r) t = isAlive r t"
  by (auto simp: isAlive_def addScore_def map_of_map_entry split: option.splits)

lemma mapHas_addScore [simp]: "mapHas (players (addScore s n r)) t = mapHas (players r) t"
  by (auto simp: mapHas_def addScore_def map_of_map_entry split: option.splits)

lemma scoreOf_addScore:
  "scoreOf (addScore s n r) t = (if t = s \<and> mapHas (players r) s then scoreOf r t + n else scoreOf r t)"
  by (auto simp: scoreOf_def addScore_def mapHas_def map_of_map_entry split: option.splits)

lemma scoreOf_markDead [simp]: "scoreOf (markDead s r) t = scoreOf r t"
  by (auto simp: scoreOf_def markDead_def map_of_map_entry split: option.splits)

lemma scoreOf_fold_markDead [simp]: "scoreOf (fold markDead xs r) t = scoreOf r t"
  by (induction xs arbitrary: r) simp_all

lemma mapHas_markDead [simp]: "mapHas (players (markDead s r)) t = mapHas (players r) t"
  by (auto simp: mapHas_def markDead_def map_of_map_entry split: option.splits)

lemma mapHas_fold_markDead [simp]: "mapHas (players (fold markDead xs r)) t = mapHas (players r) t"
  by (induction xs arbitrary: r) simp_all

lemma awardLoop_fields [simp]:
  "submissions (awardLoop elim subs r) = submissions r"
  "usedWords (awardLoop elim subs r) = usedWords r"
  by (induction elim subs r rule: awardLoop.induct) (simp_all add: Let_def)

lemma isAlive_awardLoop [simp]: "isAlive (awardLoop elim subs r) t = isAlive r t"
  by (induction elim subs r rule: awardLoop.induct) (simp_all add: Let_def)

lemma award_addScore [simp]: "award elim (addScore s n r) t = award elim r t"
  by (simp add: award_def)

lemma awardLoop_score:
  "distinct (map fst subs) \<Longrightarrow>
   scoreOf (awardLoop elim subs r) s =
     scoreOf r s + (if s \<in> fst ` set subs then award elim r s else 0)"
proof (induction elim subs r rule: awardLoop.induct)
  case (1 elim r)
  then show ?case by simp
next
  case (2 elim k word rest r)
  have d: "distinct (map fst rest)" and nk: "k \<notin> fst ` set rest" using "2.prems" by auto
  show ?case
  proof (cases "k \<in> set elim")
    case True
    then show ?thesis using "2.IH"(1) [OF True d] nk by (auto simp: award_def)
  next
    case False
    show ?thesis
    proof (cases "truthyNum (map_of (submissionTimes r) k)")
      case nt: False
      then show ?thesis using "2.IH"(2) [OF False _ d] nk by (auto simp: award_def)
    next
      case True
      then show ?thesis
        using "2.IH"(3) [OF False _ refl refl d] nk False
        by (auto simp: Let_def scoreOf_addScore award_def)
    qed
  qed
qed

lemma rememberLoop_set:
  "set (rememberLoop elim subs used) = set used \<union> {w. \<exists>s. (s, w) \<in> set subs \<and> s \<notin> set elim}"
  by (induction elim subs used rule: rememberLoop.induct) auto

lemma finalizeTurn_usedWords:
  "set (usedWords (fst (finalizeTurn now elim r)))
     = set (usedWords r) \<union> {w. \<exists>s. (s, w) \<in> set (submissions r) \<and> s \<notin> set elim}"
  by (simp add: finalizeTurn_def gameLogic_TIMER_CONFIG_def Let_def rememberLoop_set touchRoom_def)

lemma isAlive_finalizeTurn [simp]: "isAlive (fst (finalizeTurn now elim r)) t = isAlive r t"
proof -
  have "isAlive (fst (finalizeTurn now elim r)) t
    = isAlive (if truthyNum (turnStartedAt r) \<and> truthyNum (currentTurnDuration r)
               then awardLoop elim (submissions r) r else r) t"
    by (simp add: finalizeTurn_def gameLogic_TIMER_CONFIG_def Let_def touchRoom_def isAlive_def)
  then show ?thesis by simp
qed

lemma scoreOf_finalizeTurn:
  "scoreOf (fst (finalizeTurn now elim r)) t
    = scoreOf (if truthyNum (turnStartedAt r) \<and> truthyNum (currentTurnDuration r)
               then awardLoop elim (submissions r) r else r) t"
  by (simp add: finalizeTurn_def gameLogic_TIMER_CONFIG_def Let_def touchRoom_def scoreOf_def)

lemma resolveTurn_eq:
  "resolveTurn now later r =
    fst (finalizeTurn (if eliminatedOf r = [] then now else later) (eliminatedOf r)
          (fold markDead (eliminatedOf r) (r\<lparr>accepting := False\<rparr>)))"
  by (simp add: resolveTurn_def endTurn_def Let_def split_beta)

lemma endTurn_room:
  "fst (endTurn now r) =
    (if eliminatedOf r = []
     then fst (finalizeTurn now [] (r\<lparr>accepting := False\<rparr>))
     else fold markDead (eliminatedOf r) (r\<lparr>accepting := False\<rparr>))"
  by (simp add: endTurn_def Let_def split_beta)

text \<open>
  \<^verbatim>\<open>finalizeTurn\<close> raises on every room, after \<^verbatim>\<open>lobby:update\<close> and before \<^verbatim>\<open>turn:end\<close>, and
  turn resolution leaves the vote as it found it.
\<close>

lemma awardLoop_vote:
  "votingActive (awardLoop elim subs r) = votingActive r"
  "votes (awardLoop elim subs r) = votes r"
  by (induction elim subs r rule: awardLoop.induct) (simp_all add: Let_def addScore_def)

lemma fold_markDead_vote:
  "votingActive (fold markDead xs r) = votingActive r"
  "votes (fold markDead xs r) = votes r"
  by (induction xs arbitrary: r) simp_all

lemma finalizeTurn_raises:
  "snd (snd (finalizeTurn now elim r)) = Some TypeError"
  "fst (snd (finalizeTurn now elim r)) = [Emit ToRoom LobbyUpdate]"
  "votingActive (fst (finalizeTurn now elim r)) = votingActive r"
  "votes (fst (finalizeTurn now elim r)) = votes r"
  by (simp_all add: finalizeTurn_def gameLogic_TIMER_CONFIG_def Let_def awardLoop_vote)

lemma resolveTurn_vote:
  "votingActive (resolveTurn now later r) = votingActive r"
  "votes (resolveTurn now later r) = votes r"
  by (simp_all add: resolveTurn_eq finalizeTurn_raises fold_markDead_vote)

lemma submitters_set:
  "distinct (map fst (submissions r)) \<Longrightarrow>
   set (submittersOf r w) = {s. map_of (submissions r) s = Some w}"
  by (auto simp: submittersOf_def image_iff)

lemma submitters_distinct:
  "distinct (map fst (submissions r)) \<Longrightarrow> distinct (submittersOf r w)"
  by (simp add: submittersOf_def distinct_map_filter)

lemma two_elements: "distinct xs \<Longrightarrow> (2 \<le> length xs) = (\<exists>a b. a \<noteq> b \<and> a \<in> set xs \<and> b \<in> set xs)"
proof (cases xs)
  case Nil
  then show ?thesis by simp
next
  case (Cons a ys)
  assume d: "distinct xs"
  show ?thesis
  proof (cases ys)
    case Nil
    then show ?thesis using Cons by auto
  next
    case (Cons b zs)
    then have "a \<noteq> b" "a \<in> set xs" "b \<in> set xs" "2 \<le> length xs"
      using d \<open>xs = a # ys\<close> by auto
    then show ?thesis by blast
  qed
qed

lemma duplicate_pairs:
  assumes "distinct (map fst (submissions r))"
  shows "{s. \<exists>w. s \<in> set (submittersOf r w) \<and> 2 \<le> length (submittersOf r w)}
    = {s. \<exists>w s'. s' \<noteq> s \<and> map_of (submissions r) s = Some w \<and> map_of (submissions r) s' = Some w}"
proof -
  have len: "(2 \<le> length (submittersOf r w))
      = (\<exists>a b. a \<noteq> b \<and> map_of (submissions r) a = Some w \<and> map_of (submissions r) b = Some w)" for w
    unfolding two_elements [OF submitters_distinct [OF assms, of w]] submitters_set [OF assms, of w]
    by blast
  show ?thesis
  proof (intro set_eqI iffI)
    fix s
    assume "s \<in> {s. \<exists>w. s \<in> set (submittersOf r w) \<and> 2 \<le> length (submittersOf r w)}"
    then obtain w where w: "map_of (submissions r) s = Some w" "2 \<le> length (submittersOf r w)"
      using submitters_set [OF assms] by auto
    then obtain a b where ab: "a \<noteq> b" "map_of (submissions r) a = Some w"
        "map_of (submissions r) b = Some w"
      using len by blast
    then have "\<exists>s'. s' \<noteq> s \<and> map_of (submissions r) s' = Some w"
      by (cases "a = s") auto
    then show "s \<in> {s. \<exists>w s'. s' \<noteq> s \<and> map_of (submissions r) s = Some w
        \<and> map_of (submissions r) s' = Some w}"
      using w(1) by blast
  next
    fix s
    assume "s \<in> {s. \<exists>w s'. s' \<noteq> s \<and> map_of (submissions r) s = Some w
        \<and> map_of (submissions r) s' = Some w}"
    then obtain w s' where w: "s' \<noteq> s" "map_of (submissions r) s = Some w"
        "map_of (submissions r) s' = Some w"
      by blast
    then have "2 \<le> length (submittersOf r w)" using len by blast
    moreover have "s \<in> set (submittersOf r w)" using w(2) submitters_set [OF assms] by simp
    ultimately show "s \<in> {s. \<exists>w. s \<in> set (submittersOf r w) \<and> 2 \<le> length (submittersOf r w)}"
      by blast
  qed
qed

lemma eliminated_exactly:
  assumes "distinct (map fst (players r))" and "distinct (map fst (submissions r))"
  shows "(s \<in> set (eliminatedOf r)) =
    ((isAlive r s \<and> \<not> mapHas (submissions r) s)
     \<or> (\<exists>w s'. s' \<noteq> s \<and> map_of (submissions r) s = Some w
           \<and> map_of (submissions r) s' = Some w))"
proof -
  have "set (eliminatedOf r) = {s. isAlive r s \<and> \<not> mapHas (submissions r) s}
     \<union> {s. \<exists>w s'. s' \<noteq> s \<and> map_of (submissions r) s = Some w \<and> map_of (submissions r) s' = Some w}"
    using eliminatedOf_set [OF assms(1)] duplicate_pairs [OF assms(2)] by simp
  then show ?thesis by (simp only: Un_iff mem_Collect_eq)
qed

lemma duplicates_eliminated:
  assumes "distinct (map fst (players r))" and "distinct (map fst (submissions r))"
    and "s \<noteq> s'" and "map_of (submissions r) s = Some w" and "map_of (submissions r) s' = Some w"
  shows "s \<in> set (eliminatedOf r)" and "s' \<in> set (eliminatedOf r)"
proof -
  have "\<exists>w t. t \<noteq> s \<and> map_of (submissions r) s = Some w \<and> map_of (submissions r) t = Some w"
    using assms(3-5) by (intro exI [of _ w] exI [of _ s']) simp
  then show "s \<in> set (eliminatedOf r)"
    by (simp only: eliminated_exactly [OF assms(1,2)] simp_thms)
  have "\<exists>w t. t \<noteq> s' \<and> map_of (submissions r) s' = Some w \<and> map_of (submissions r) t = Some w"
    using assms(3-5) by (intro exI [of _ w] exI [of _ s]) simp
  then show "s' \<in> set (eliminatedOf r)"
    by (simp only: eliminated_exactly [OF assms(1,2)] simp_thms)
qed

text \<open>
  Claim C5. At turn resolution the disqualified players are exactly the alive players
  with no submission and the players who share their word with another submitter: a
  word submitted by two or more players disqualifies all of them. The disqualified are
  not alive as soon as \<^verbatim>\<open>endTurn\<close> has run, and nobody else loses the alive flag. When
  the turn is finalized, the used words have grown by exactly the words of the
  submitters who were not disqualified.
\<close>

theorem turn_resolution:
  assumes "distinct (map fst (players r))" and "distinct (map fst (submissions r))"
  shows "(\<forall>s s' w. s \<noteq> s' \<and> map_of (submissions r) s = Some w
              \<and> map_of (submissions r) s' = Some w \<longrightarrow>
            s \<in> set (eliminatedOf r) \<and> s' \<in> set (eliminatedOf r))
     \<and> (\<forall>s. isAlive r s \<and> \<not> mapHas (submissions r) s \<longrightarrow> s \<in> set (eliminatedOf r))
     \<and> (\<forall>s \<in> set (eliminatedOf r).
           (isAlive r s \<and> \<not> mapHas (submissions r) s)
           \<or> (\<exists>w s'. s' \<noteq> s \<and> map_of (submissions r) s = Some w
                 \<and> map_of (submissions r) s' = Some w))
     \<and> (\<forall>s. isAlive (fst (endTurn now r)) s = (isAlive r s \<and> s \<notin> set (eliminatedOf r)))
     \<and> (\<forall>s. isAlive (resolveTurn now later r) s = (isAlive r s \<and> s \<notin> set (eliminatedOf r)))
     \<and> set (usedWords (resolveTurn now later r))
         = set (usedWords r)
           \<union> {w. \<exists>s. map_of (submissions r) s = Some w \<and> s \<notin> set (eliminatedOf r)}"
proof -
  let ?E = "set (eliminatedOf r)"
  note ex = eliminated_exactly [OF assms]
  have a: "\<forall>s s' w. s \<noteq> s' \<and> map_of (submissions r) s = Some w
              \<and> map_of (submissions r) s' = Some w \<longrightarrow> s \<in> ?E \<and> s' \<in> ?E"
  proof (intro allI impI, elim conjE)
    fix s s' w
    assume "s \<noteq> s'" "map_of (submissions r) s = Some w" "map_of (submissions r) s' = Some w"
    then show "s \<in> ?E \<and> s' \<in> ?E"
      using duplicates_eliminated [OF assms, of s s' w] by (intro conjI)
  qed
  have b: "\<forall>s. isAlive r s \<and> \<not> mapHas (submissions r) s \<longrightarrow> s \<in> ?E"
    unfolding ex by (intro allI impI disjI1)
  have c: "\<forall>s \<in> ?E.
           (isAlive r s \<and> \<not> mapHas (submissions r) s)
           \<or> (\<exists>w s'. s' \<noteq> s \<and> map_of (submissions r) s = Some w
                 \<and> map_of (submissions r) s' = Some w)"
  proof
    fix s
    assume "s \<in> ?E"
    then show "(isAlive r s \<and> \<not> mapHas (submissions r) s)
           \<or> (\<exists>w s'. s' \<noteq> s \<and> map_of (submissions r) s = Some w
                 \<and> map_of (submissions r) s' = Some w)"
      by (simp only: ex)
  qed
  have al: "isAlive (r\<lparr>accepting := False\<rparr>) = isAlive r"
    by (rule isAlive_cong) simp
  have d: "\<forall>s. isAlive (fst (endTurn now r)) s = (isAlive r s \<and> s \<notin> ?E)"
    by (simp add: endTurn_room isAlive_fold_markDead al)
  have e: "\<forall>s. isAlive (resolveTurn now later r) s = (isAlive r s \<and> s \<notin> ?E)"
    by (simp add: resolveTurn_eq isAlive_fold_markDead al)
  have f: "set (usedWords (resolveTurn now later r))
         = set (usedWords r) \<union> {w. \<exists>s. map_of (submissions r) s = Some w \<and> s \<notin> ?E}"
  proof -
    have f0: "set (usedWords (resolveTurn now later r))
         = set (usedWords r) \<union> {w. \<exists>s. (s, w) \<in> set (submissions r) \<and> s \<notin> ?E}"
      by (simp add: resolveTurn_eq finalizeTurn_usedWords)
    have m: "((s, w) \<in> set (submissions r)) = (map_of (submissions r) s = Some w)" for s w
      using assms(2) by simp
    show ?thesis unfolding f0 m by (rule refl)
  qed
  show ?thesis by (intro conjI) (rule a, rule b, rule c, rule d, rule e, rule f)
qed

theorem turn_resolution_witness:
  "eliminatedOf chatTurn = [''s1'', ''s2'']
   \<and> \<not> isAlive (fst (endTurn 15000 chatTurn)) ''s1''
   \<and> \<not> isAlive (fst (endTurn 15000 chatTurn)) ''s2''
   \<and> isAlive (resolveTurn 15000 17000 chatTurn) ''s3''
   \<and> set (usedWords (resolveTurn 15000 17000 chatTurn)) = {''chien''}
   \<and> ''s2'' \<in> set (eliminatedOf silentTurn)"
proof -
  have h: "distinct (map fst (players chatTurn))" "distinct (map fst (submissions chatTurn))"
    by code_simp+
  have g: "distinct (map fst (players silentTurn))" "distinct (map fst (submissions silentTurn))"
    by code_simp+
  have g': "isAlive silentTurn ''s2'' \<and> \<not> mapHas (submissions silentTurn) ''s2''"
    by code_simp
  have s: "''s1'' \<noteq> ''s2'' \<and> map_of (submissions chatTurn) ''s1'' = Some ''chat''
      \<and> map_of (submissions chatTurn) ''s2'' = Some ''chat''"
    by code_simp
  have s3: "isAlive chatTurn ''s3''" by code_simp
  have el: "eliminatedOf chatTurn = [''s1'', ''s2'']" by code_simp
  note t = turn_resolution [OF h, of 15000 17000]
  note t1 = t [THEN conjunct1]
  note t4 = t [THEN conjunct2, THEN conjunct2, THEN conjunct2, THEN conjunct1]
  note t5 = t [THEN conjunct2, THEN conjunct2, THEN conjunct2, THEN conjunct2, THEN conjunct1]
  note t6 = t [THEN conjunct2, THEN conjunct2, THEN conjunct2, THEN conjunct2, THEN conjunct2]
  have a: "''s1'' \<in> set (eliminatedOf chatTurn) \<and> ''s2'' \<in> set (eliminatedOf chatTurn)"
    using t1 [rule_format, OF s] .
  have b: "\<not> isAlive (fst (endTurn 15000 chatTurn)) ''s1''"
    "\<not> isAlive (fst (endTurn 15000 chatTurn)) ''s2''"
    using t4 a by simp_all
  have c: "isAlive (resolveTurn 15000 17000 chatTurn) ''s3''"
    using t5 s3 el by simp
  have u: "{w. \<exists>s. map_of (submissions chatTurn) s = Some w \<and> s \<notin> set [''s1'', ''s2'']}
      = {''chien''}"
    by (auto simp: chatTurn_def openTurn_def createRoom_def split: if_splits)
  have uw: "usedWords chatTurn = []" by code_simp
  have d: "set (usedWords (resolveTurn 15000 17000 chatTurn)) = {''chien''}"
    using t6 u uw unfolding el by simp
  note n2 = turn_resolution [OF g, of 15000 17000, THEN conjunct2, THEN conjunct1]
  have e: "''s2'' \<in> set (eliminatedOf silentTurn)"
    using n2 [rule_format, OF g'] .
  show ?thesis using el b c d e by (intro conjI)
qed

section \<open>Speed score\<close>

lemma floor_fraction: "0 < d \<Longrightarrow> \<lfloor>(rat_of_int e / rat_of_int d) * 10\<rfloor> = (e * 10) div d"
proof -
  have "(rat_of_int e / rat_of_int d) * 10 = rat_of_int (e * 10) / rat_of_int d" by simp
  then show ?thesis by (simp only: floor_divide_of_int_eq)
qed

lemma clamp_steps:
  "(let sc = y; sc1 = (if sc < 1 then 1 else sc); sc2 = (if sc1 > 10 then 10 else sc1) in sc2)
    = max 1 (min 10 (y::int))"
  by (simp add: Let_def max_def min_def)

lemma speedScore_clamp:
  "speedScore e d = max 1 (min 10 (10 - \<lfloor>(rat_of_int e / rat_of_int d) * 10\<rfloor>))"
  unfolding speedScore_def by (rule clamp_steps)

lemma speedScore_div: "0 < d \<Longrightarrow> speedScore e d = max 1 (min 10 (10 - (e * 10) div d))"
  by (simp only: speedScore_clamp floor_fraction)

lemma speedScore_range: "1 \<le> speedScore e d \<and> speedScore e d \<le> 10"
  by (simp add: speedScore_clamp)

lemma speedScore_mono: "0 < d \<Longrightarrow> e \<le> e' \<Longrightarrow> speedScore e' d \<le> speedScore e d"
proof -
  assume d: "0 < d" and le: "e \<le> e'"
  have "(e * 10) div d \<le> (e' * 10) div d"
    using le d by (intro zdiv_mono1) simp_all
  then show ?thesis by (simp add: speedScore_div [OF d] max_def min_def)
qed

lemma scoreOf_accepting [simp]: "scoreOf (r\<lparr>accepting := b\<rparr>) s = scoreOf r s"
  by (simp add: scoreOf_def)

lemma award_prepared:
  "award elim (fold markDead elim (r\<lparr>accepting := False\<rparr>)) s = award elim r s"
  by (simp add: award_def)

lemma resolveTurn_score:
  assumes "distinct (map fst (submissions r))"
  shows "scoreOf (resolveTurn now later r) s =
    scoreOf r s +
      (if truthyNum (turnStartedAt r) \<and> truthyNum (currentTurnDuration r)
          \<and> mapHas (submissions r) s
       then award (eliminatedOf r) r s else 0)"
proof -
  let ?r1 = "fold markDead (eliminatedOf r) (r\<lparr>accepting := False\<rparr>)"
  have f: "submissions ?r1 = submissions r" "turnStartedAt ?r1 = turnStartedAt r"
    "currentTurnDuration ?r1 = currentTurnDuration r" "scoreOf ?r1 s = scoreOf r s"
    by simp_all
  have k: "(s \<in> fst ` set (submissions r)) = mapHas (submissions r) s"
    by (simp add: mapHas_def map_of_eq_None_iff)
  have "scoreOf (awardLoop (eliminatedOf r) (submissions r) ?r1) s
      = scoreOf r s + (if mapHas (submissions r) s then award (eliminatedOf r) r s else 0)"
    using awardLoop_score [OF assms, of "eliminatedOf r" ?r1 s]
    by (simp only: f k award_prepared)
  then show ?thesis
    by (simp add: resolveTurn_eq scoreOf_finalizeTurn f)
qed

text \<open>
  The guards of the scoring loop hold in a turn that \<^verbatim>\<open>startNextTurn\<close> opened at a
  non-zero instant: the start instant is set and the duration is at least four seconds.
\<close>

lemma getTurnDuration_at_least_4: "4 \<le> getTurnDuration lvl"
proof -
  have a: "lvl \<le> 10 \<Longrightarrow> rat_of_int (lvl - 1) * (2 / 9) \<le> 6" 
  proof -
    assume "lvl \<le> 10"
    then have "rat_of_int (lvl - 1) \<le> 9" by simp
    then show ?thesis by simp
  qed
  have b: "lvl \<le> 15 \<Longrightarrow> rat_of_int (lvl - 10) * (2 / 5) \<le> 4"
  proof -
    assume "lvl \<le> 15"
    then have "rat_of_int (lvl - 10) \<le> 5" by simp
    then show ?thesis by simp
  qed
  have c: "lvl \<le> 20 \<Longrightarrow> rat_of_int (lvl - 15) * (2 / 5) \<le> 2"
  proof -
    assume "lvl \<le> 20"
    then have "rat_of_int (lvl - 15) \<le> 5" by simp
    then show ?thesis by simp
  qed
  show ?thesis
    using a b c by (simp add: default_table)
qed

lemma turn_clock_set:
  assumes "1 < length (aliveIds r)"
  shows "turnStartedAt (fst (startNextTurn now letters r)) = Some now
    \<and> (\<exists>d. currentTurnDuration (fst (startNextTurn now letters r)) = Some d \<and> 4000 \<le> d)"
proof -
  have "4000 \<le> getTurnDuration (level r + 1) * 1000"
    using getTurnDuration_at_least_4 [of "level r + 1"] by simp
  then have "4000 \<le> mathRound (getTurnDuration (level r + 1) * 1000)"
    by (simp add: mathRound_def le_floor_iff)
  then show ?thesis using assms
    by (simp add: startNextTurn_def Let_def touchRoom_def)
qed

text \<open>
  Claim C6. The speed score is \<open>10 - floor(elapsed / duration * 10)\<close> kept between 1 and
  10 (the quotient taken exactly), so it always lies in that range, and for a positive
  duration it does not grow when the elapsed time grows. At turn resolution every
  submitter who is not disqualified, is on the roster and has a recorded submission
  instant gains exactly the speed score of the time from the turn's start to that
  instant; a disqualified player and a player without submission gain nothing. (The turn's
  start and duration and the submission instant are set and not zero: these are the
  guards of the scoring loop, which every turn opened by \<^verbatim>\<open>startNextTurn\<close> and every
  submission recorded at a non-zero instant satisfy.)
\<close>

theorem speed_score_award:
  "speedScore e d = max 1 (min 10 (10 - \<lfloor>(rat_of_int e / rat_of_int d) * 10\<rfloor>))
   \<and> 1 \<le> speedScore e d \<and> speedScore e d \<le> 10
   \<and> (0 < d \<and> e \<le> e' \<longrightarrow> speedScore e' d \<le> speedScore e d)
   \<and> (distinct (map fst (submissions r)) \<and> mapHas (submissions r) s
        \<and> s \<notin> set (eliminatedOf r) \<and> mapHas (players r) s
        \<and> turnStartedAt r = Some t0 \<and> t0 \<noteq> 0
        \<and> currentTurnDuration r = Some dur \<and> dur \<noteq> 0
        \<and> map_of (submissionTimes r) s = Some ts \<and> ts \<noteq> 0 \<longrightarrow>
        scoreOf (resolveTurn now later r) s = scoreOf r s + speedScore (ts - t0) dur)
   \<and> (distinct (map fst (submissions r))
        \<and> (s \<in> set (eliminatedOf r) \<or> \<not> mapHas (submissions r) s) \<longrightarrow>
        scoreOf (resolveTurn now later r) s = scoreOf r s)"
proof -
  have a: "speedScore e d = max 1 (min 10 (10 - \<lfloor>(rat_of_int e / rat_of_int d) * 10\<rfloor>))"
    by (rule speedScore_clamp)
  have b: "1 \<le> speedScore e d" "speedScore e d \<le> 10"
    using speedScore_range [of e d] by simp_all
  have c: "0 < d \<and> e \<le> e' \<longrightarrow> speedScore e' d \<le> speedScore e d"
    using speedScore_mono by blast
  have d: "distinct (map fst (submissions r)) \<and> mapHas (submissions r) s
        \<and> s \<notin> set (eliminatedOf r) \<and> mapHas (players r) s
        \<and> turnStartedAt r = Some t0 \<and> t0 \<noteq> 0
        \<and> currentTurnDuration r = Some dur \<and> dur \<noteq> 0
        \<and> map_of (submissionTimes r) s = Some ts \<and> ts \<noteq> 0 \<longrightarrow>
        scoreOf (resolveTurn now later r) s = scoreOf r s + speedScore (ts - t0) dur"
  proof (intro impI, elim conjE)
    assume h: "distinct (map fst (submissions r))" "mapHas (submissions r) s"
      "s \<notin> set (eliminatedOf r)" "mapHas (players r) s"
      "turnStartedAt r = Some t0" "t0 \<noteq> 0" "currentTurnDuration r = Some dur" "dur \<noteq> 0"
      "map_of (submissionTimes r) s = Some ts" "ts \<noteq> 0"
    have "award (eliminatedOf r) r s = speedScore (ts - t0) dur"
      using h(3-10) by (simp add: award_def)
    then show "scoreOf (resolveTurn now later r) s = scoreOf r s + speedScore (ts - t0) dur"
      using resolveTurn_score [OF h(1), of now later s] h(2,5-8) by simp
  qed
  have e: "distinct (map fst (submissions r))
        \<and> (s \<in> set (eliminatedOf r) \<or> \<not> mapHas (submissions r) s) \<longrightarrow>
        scoreOf (resolveTurn now later r) s = scoreOf r s"
  proof (intro impI, elim conjE)
    assume h: "distinct (map fst (submissions r))"
      "s \<in> set (eliminatedOf r) \<or> \<not> mapHas (submissions r) s"
    have "mapHas (submissions r) s \<longrightarrow> award (eliminatedOf r) r s = 0"
      using h(2) by (auto simp: award_def)
    then show "scoreOf (resolveTurn now later r) s = scoreOf r s"
      using resolveTurn_score [OF h(1), of now later s] by simp
  qed
  show ?thesis
    by (intro conjI) (rule a, rule b(1), rule b(2), rule c, rule d, rule e)
qed

theorem speed_score_award_witness:
  "speedScore 3999 10000 = 7
   \<and> speedScore 9999 10000 \<le> speedScore 1000 10000
   \<and> scoreOf (resolveTurn 15000 17000 chatTurn) ''s3'' = 7
   \<and> scoreOf (resolveTurn 15000 17000 chatTurn) ''s1'' = 0"
proof -
  have h: "distinct (map fst (submissions chatTurn)) \<and> mapHas (submissions chatTurn) ''s3''
        \<and> ''s3'' \<notin> set (eliminatedOf chatTurn) \<and> mapHas (players chatTurn) ''s3''
        \<and> turnStartedAt chatTurn = Some 5000 \<and> (5000::int) \<noteq> 0
        \<and> currentTurnDuration chatTurn = Some 10000 \<and> (10000::int) \<noteq> 0
        \<and> map_of (submissionTimes chatTurn) ''s3'' = Some 8999 \<and> (8999::int) \<noteq> 0"
    by code_simp
  have g: "distinct (map fst (submissions chatTurn))
        \<and> (''s1'' \<in> set (eliminatedOf chatTurn) \<or> \<not> mapHas (submissions chatTurn) ''s1'')"
    by code_simp
  have z: "scoreOf chatTurn ''s3'' = 0" "scoreOf chatTurn ''s1'' = 0" by code_simp+
  have m: "(0::int) < 10000 \<and> (1000::int) \<le> 9999" by simp
  note t = speed_score_award [of 3999 10000 3999 chatTurn "''s3''" 5000 10000 8999 15000 17000]
  note t' = speed_score_award [of 1000 10000 9999 chatTurn "''s1''" 5000 10000 8999 15000 17000]
  have a: "speedScore 3999 10000 = 7"
    using t [THEN conjunct1] by (simp add: floor_eq_iff)
  have b: "speedScore 9999 10000 \<le> speedScore 1000 10000"
    using t' [THEN conjunct2, THEN conjunct2, THEN conjunct2, THEN conjunct1, rule_format, OF m] .
  have c: "scoreOf (resolveTurn 15000 17000 chatTurn) ''s3'' = scoreOf chatTurn ''s3'' + speedScore (8999 - 5000) 10000"
    using t [THEN conjunct2, THEN conjunct2, THEN conjunct2, THEN conjunct2, THEN conjunct1,
        rule_format, OF h] .
  have d: "scoreOf (resolveTurn 15000 17000 chatTurn) ''s1'' = scoreOf chatTurn ''s1''"
    using t' [THEN conjunct2, THEN conjunct2, THEN conjunct2, THEN conjunct2, THEN conjunct2,
        rule_format, OF g] .
  show ?thesis using a b c d z by simp
qed

end
